theory Spec2Isabelle
  imports Complex_Main "HOL-Library.AList"
begin

section \<open>Data model of the system-stats service\<close>

text \<open>
  The service of \<^verbatim>\<open>system-stats.service.ts\<close> folds a nested traffic report into a
  snapshot (\<^verbatim>\<open>saveSystemStats\<close>) and serves rolling averages over stored snapshots
  (\<^verbatim>\<open>getSystemStats\<close>).

  Numbers: a JavaScript \<^verbatim>\<open>number\<close> that carries a metric is a finite binary64 value,
  modelled as the rational it denotes; every addition and division of the code is followed
  by the rounding \<open>binary64\<close> defined below. A timestamp is an integer. A field that may
  be absent (\<^verbatim>\<open>undefined\<close>) is an \<open>option\<close>. Outside the model: a result beyond the
  largest finite binary64 value (the code continues with \<^verbatim>\<open>Infinity\<close>), \<^verbatim>\<open>NaN\<close>, and
  the sign of zero.

  A JavaScript object walked by \<^verbatim>\<open>for ... in\<close> is the association list of its own
  enumerable keys in enumeration order. A \<^verbatim>\<open>Map\<close> whose iteration order is observed is an
  association list as well: \<open>map_of\<close> is \<^verbatim>\<open>get\<close>/\<^verbatim>\<open>has\<close>, and \<open>AList.update\<close> is
  \<^verbatim>\<open>set\<close> (an existing key keeps its position, a new key goes to the end).

  The types \<^verbatim>\<open>SystemStatsInput\<close>, \<^verbatim>\<open>SystemStats\<close>, \<^verbatim>\<open>SystemInfoAttribute\<close> and
  \<^verbatim>\<open>SystemStatsDto\<close> are imported by the service; their shapes here are the fields the
  service reads and writes. The leaf of a report is read through \<^verbatim>\<open>any\<close>, so either of
  its fields may be absent, and a detail row receives them unchanged.
\<close>

record SingleServerStatsInput =
  in_rpm :: "rat option"
  in_fpm :: "rat option"

type_synonym ServerStatsInput = "(string \<times> SingleServerStatsInput) list"
type_synonym RpcStatsInput = "(string \<times> ServerStatsInput) list"
type_synonym SystemStatsInput = "(string \<times> RpcStatsInput) list"

record ServerInfo =
  host_rpm :: rat
  host_fpm :: rat

record SystemInfo =
  sys_rpm :: rat
  sys_fpm :: rat
  sys_hosts :: "(string \<times> ServerInfo) list"

record NodeStats =
  node_name :: string
  node_rpm :: rat
  node_fpm :: rat

record LinkStats =
  link_source :: string
  link_target :: string
  link_rpm :: rat
  link_fpm :: rat

record SystemStats =
  stats_time :: int
  stats_nodes :: "NodeStats list"
  stats_links :: "LinkStats list"

record SystemInfoAttribute =
  attr_time :: int
  attr_name :: string
  attr_node :: string
  attr_source :: string
  attr_rpm :: "rat option"
  attr_fpm :: "rat option"

text \<open>
  The outcome of a service call: a \<^verbatim>\<open>TypeError\<close> thrown by a property access on
  \<^verbatim>\<open>undefined\<close>, a promise rejected with the collaborator's error, or a resolved promise.
\<close>

datatype ('e, 'a) outcome = TypeError | Rejected 'e | Resolved 'a

text \<open>The writes a call of \<^verbatim>\<open>saveSystemStats\<close> issues to its two collaborators, in order.\<close>

datatype store_call =
  RepoSaveSystemStats SystemStats
  | InfoSaveSystemInfo "SystemInfoAttribute list"

section \<open>JavaScript numbers\<close>

text \<open>
  Rounding to the nearest integer, a tie going to the even one: the rounding of the
  significand in binary64 arithmetic.
\<close>

definition roundTiesToEven :: "rat \<Rightarrow> int" where
  "roundTiesToEven m =
     (let f = \<lfloor>m\<rfloor>; r = m - of_int f
      in if r < 1 / 2 then f
         else if 1 / 2 < r then f + 1
         else if even f then f else f + 1)"

text \<open>
  Scaling a positive number by powers of two until it lies in the interval from \<open>2 ^ 52\<close>
  up to \<open>2 ^ 53\<close>, where binary64 values are the integers; \<open>q\<close> counts the exponent. The
  exponent never goes below \<open>- 1074\<close>, the spacing of the subnormal values.
\<close>

function scaleDown :: "rat \<Rightarrow> int \<Rightarrow> rat \<times> int" where
  "scaleDown m q = (if 2 ^ 53 \<le> m then scaleDown (m / 2) (q + 1) else (m, q))"
  by pat_completeness auto
termination
proof (relation "measure (\<lambda>(m, q). nat \<lfloor>m\<rfloor>)")
  show "wf (measure (\<lambda>(m, q). nat \<lfloor>m\<rfloor>))" by simp
next
  fix m :: rat and q :: int
  assume a: "2 ^ 53 \<le> m"
  have "m / 2 \<le> m - 1" using a by simp
  then have "\<lfloor>m / 2\<rfloor> \<le> \<lfloor>m - 1\<rfloor>" by (rule floor_mono)
  moreover have "0 < \<lfloor>m\<rfloor>" using a by (simp add: floor_less_iff less_floor_iff)
  ultimately show "((m / 2, q + 1), (m, q)) \<in> measure (\<lambda>(m, q). nat \<lfloor>m\<rfloor>)"
    by simp
qed

function scaleUp :: "rat \<Rightarrow> int \<Rightarrow> rat \<times> int" where
  "scaleUp m q = (if m < 2 ^ 52 \<and> - 1074 < q then scaleUp (m * 2) (q - 1) else (m, q))"
  by pat_completeness auto
termination
  by (relation "measure (\<lambda>(m, q). nat (q + 1074))") auto

declare scaleDown.simps [simp del] scaleUp.simps [simp del]

text \<open>The power of two with an integer exponent.\<close>

definition pow2 :: "int \<Rightarrow> rat" where
  "pow2 q = (if 0 \<le> q then 2 ^ nat q else 1 / 2 ^ nat (- q))"

text \<open>
  The binary64 value nearest to \<open>x\<close>, a tie going to the even significand: the scaled
  magnitude is rounded to an integer and scaled back.
\<close>

definition binary64 :: "rat \<Rightarrow> rat" where
  "binary64 x =
     (if x = 0 then 0
      else case scaleDown \<bar>x\<bar> 0 of
             (m1, q1) \<Rightarrow>
               (case scaleUp m1 q1 of
                  (m, q) \<Rightarrow>
                    sgn x * of_int (roundTiesToEven m) * pow2 q))"

text \<open>The operators \<^verbatim>\<open>+\<close> (also in \<^verbatim>\<open>+=\<close>) and \<^verbatim>\<open>/\<close> on numbers.\<close>

definition fadd :: "rat \<Rightarrow> rat \<Rightarrow> rat" where
  "fadd a b = binary64 (a + b)"

definition fdiv :: "rat \<Rightarrow> rat \<Rightarrow> rat" where
  "fdiv a b = binary64 (a / b)"

section \<open>Ingestion: \<^verbatim>\<open>saveSystemStats\<close>\<close>

text \<open>\<^verbatim>\<open>v || 0\<close> for a field that is a number or absent.\<close>

definition orZero :: "rat option \<Rightarrow> rat" where
  "orZero v = (case v of None \<Rightarrow> 0 | Some x \<Rightarrow> x)"

text \<open>
  The innermost loop, over the hosts of one (system, target) pair. Its state is the host
  map of the target system, the running link sums and the detail rows pushed so far.
  \<^verbatim>\<open>targetSystem.hosts.get(host)\<close> yielding \<^verbatim>\<open>undefined\<close> would throw at the following
  property access: that is the result \<open>None\<close>.
\<close>

fun hostLoop ::
  "int \<Rightarrow> string \<Rightarrow> string \<Rightarrow> ServerStatsInput
    \<Rightarrow> (string \<times> ServerInfo) list \<times> rat \<times> rat \<times> SystemInfoAttribute list
    \<Rightarrow> ((string \<times> ServerInfo) list \<times> rat \<times> rat \<times> SystemInfoAttribute list) option" where
  "hostLoop time system target [] st = Some st"
| "hostLoop time system target ((host, info) # rest) (hs, rpm, fpm, systemInfos) =
     (let hs1 = (if map_of hs host = None
                 then AList.update host \<lparr>host_rpm = 0, host_fpm = 0\<rparr> hs else hs)
      in case map_of hs1 host of
           None \<Rightarrow> None
         | Some targetServer \<Rightarrow>
             hostLoop time system target rest
               (AList.update host
                  \<lparr>host_rpm = fadd (host_rpm targetServer) (orZero (in_rpm info)),
                   host_fpm = fadd (host_fpm targetServer) (orZero (in_fpm info))\<rparr> hs1,
                fadd rpm (orZero (in_rpm info)),
                fadd fpm (orZero (in_fpm info)),
                systemInfos @
                  [\<lparr>attr_time = time, attr_name = target, attr_node = host,
                    attr_source = system, attr_rpm = in_rpm info, attr_fpm = in_fpm info\<rparr>]))"

text \<open>
  The middle loop, over the targets of one source system. Its state is the \<^verbatim>\<open>systems\<close>
  map, the links pushed so far and the detail rows pushed so far.
\<close>

fun targetLoop ::
  "int \<Rightarrow> string \<Rightarrow> RpcStatsInput
    \<Rightarrow> (string \<times> SystemInfo) list \<times> LinkStats list \<times> SystemInfoAttribute list
    \<Rightarrow> ((string \<times> SystemInfo) list \<times> LinkStats list \<times> SystemInfoAttribute list) option" where
  "targetLoop time system [] st = Some st"
| "targetLoop time system ((target, hostsIn) # rest) (systems, links, systemInfos) =
     (let systems1 = (if map_of systems target = None
                      then AList.update target \<lparr>sys_rpm = 0, sys_fpm = 0, sys_hosts = []\<rparr> systems
                      else systems)
      in case map_of systems1 target of
           None \<Rightarrow> None
         | Some targetSystem \<Rightarrow>
             (case hostLoop time system target hostsIn (sys_hosts targetSystem, 0, 0, systemInfos) of
                None \<Rightarrow> None
              | Some (hs, rpm, fpm, systemInfos') \<Rightarrow>
                  targetLoop time system rest
                    (AList.update target
                       \<lparr>sys_rpm = fadd (sys_rpm targetSystem) rpm,
                        sys_fpm = fadd (sys_fpm targetSystem) fpm,
                        sys_hosts = hs\<rparr> systems1,
                     links @
                       [\<lparr>link_source = system, link_target = target,
                         link_rpm = rpm, link_fpm = fpm\<rparr>],
                     systemInfos')))"

text \<open>
  The outer loop, over the source systems of the report. The guards
  \<^verbatim>\<open>if (system === undefined) continue\<close> of the three loops never fire, since
  \<^verbatim>\<open>for ... in\<close> yields strings only; they have no counterpart here.
\<close>

fun systemLoop ::
  "int \<Rightarrow> SystemStatsInput
    \<Rightarrow> (string \<times> SystemInfo) list \<times> LinkStats list \<times> SystemInfoAttribute list
    \<Rightarrow> ((string \<times> SystemInfo) list \<times> LinkStats list \<times> SystemInfoAttribute list) option" where
  "systemLoop time [] st = Some st"
| "systemLoop time ((system, targetsIn) # rest) (systems, links, systemInfos) =
     (let systems1 = (if map_of systems system = None
                      then AList.update system \<lparr>sys_rpm = 0, sys_fpm = 0, sys_hosts = []\<rparr> systems
                      else systems)
      in case targetLoop time system targetsIn (systems1, links, systemInfos) of
           None \<Rightarrow> None
         | Some st' \<Rightarrow> systemLoop time rest st')"

text \<open>
  The synchronous part of \<^verbatim>\<open>saveSystemStats\<close>: the three nested loops, then
  \<^verbatim>\<open>systems.forEach\<close> pushing one node per system in insertion order. It yields the
  snapshot \<^verbatim>\<open>systemStats\<close> and the detail rows \<^verbatim>\<open>systemInfos\<close>.
\<close>

definition buildSystemStats ::
  "int \<Rightarrow> SystemStatsInput \<Rightarrow> (SystemStats \<times> SystemInfoAttribute list) option" where
  "buildSystemStats time stats =
     (case systemLoop time stats ([], [], []) of
        None \<Rightarrow> None
      | Some (systems, links, systemInfos) \<Rightarrow>
          Some (\<lparr>stats_time = time,
                 stats_nodes =
                   map (\<lambda>(system, info).
                          \<lparr>node_name = system, node_rpm = sys_rpm info, node_fpm = sys_fpm info\<rparr>)
                       systems,
                 stats_links = links\<rparr>,
                systemInfos))"

text \<open>
  \<^verbatim>\<open>saveSystemStats\<close> itself. The two collaborators are parameters: each maps the value
  written to the result of its promise (\<open>Inl e\<close> rejected with \<open>e\<close>, \<open>Inr ()\<close> resolved). The
  result pairs the outcome of the returned promise with the writes issued, in order: the
  callback of \<^verbatim>\<open>then\<close> runs only when the first promise resolves.
\<close>

definition saveSystemStats ::
  "(SystemStats \<Rightarrow> 'e + unit) \<Rightarrow> (SystemInfoAttribute list \<Rightarrow> 'e + unit)
    \<Rightarrow> int \<Rightarrow> SystemStatsInput \<Rightarrow> ('e, unit) outcome \<times> store_call list" where
  "saveSystemStats repoSave infoSave time stats =
     (case buildSystemStats time stats of
        None \<Rightarrow> (TypeError, [])
      | Some (systemStats, systemInfos) \<Rightarrow>
          (case repoSave systemStats of
             Inl e \<Rightarrow> (Rejected e, [RepoSaveSystemStats systemStats])
           | Inr _ \<Rightarrow>
               (case infoSave systemInfos of
                  Inl e \<Rightarrow>
                    (Rejected e,
                     [RepoSaveSystemStats systemStats, InfoSaveSystemInfo systemInfos])
                | Inr _ \<Rightarrow>
                    (Resolved (),
                     [RepoSaveSystemStats systemStats, InfoSaveSystemInfo systemInfos]))))"

section \<open>Query: \<^verbatim>\<open>getSystemStats\<close>\<close>

record SystemStatsDto =
  dto_time :: int
  dto_nodes :: "(string \<times> rat list \<times> rat list) list"
  dto_links :: "(string \<times> string \<times> rat list \<times> rat list) list"

text \<open>The template string \<^verbatim>\<open>`${ source }-${ target }`\<close>.\<close>

definition getLinkKey :: "string \<Rightarrow> string \<Rightarrow> string" where
  "getLinkKey source target = source @ ''-'' @ target"

text \<open>
  The loop of \<^verbatim>\<open>calcDataAvg\<close>: \<^verbatim>\<open>for (let time = begin; time <= end; time += 60)\<close>
  with the running \<^verbatim>\<open>sum\<close> and \<^verbatim>\<open>count\<close> (here sumAcc).
\<close>

function calcDataAvg_loop ::
  "(int \<rightharpoonup> rat) \<Rightarrow> int \<Rightarrow> int \<Rightarrow> rat \<Rightarrow> nat \<Rightarrow> rat \<times> nat" where
  "calcDataAvg_loop data time end' sumAcc count =
     (if time \<le> end'
      then (case data time of
              Some v \<Rightarrow> calcDataAvg_loop data (time + 60) end' (fadd sumAcc v) (count + 1)
            | None \<Rightarrow> calcDataAvg_loop data (time + 60) end' sumAcc count)
      else (sumAcc, count))"
  by pat_completeness auto
termination
  by (relation "measure (\<lambda>(data, time, end', sumAcc, count). nat (end' + 1 - time))") auto

declare calcDataAvg_loop.simps [simp del]

text \<open>
  \<^verbatim>\<open>x.toFixed(3)\<close> strips the sign of a negative \<open>x\<close>, takes the integer \<open>n\<close> for which
  \<open>n / 1000\<close> is closest to the value \<open>x\<close> denotes, the larger one of two, and prints the
  decimal \<open>n / 1000\<close>: \<open>toFixed3\<close> is the number printed. \<^verbatim>\<open>parseFloat\<close> reads the
  decimal back as the nearest binary64 value.
\<close>

definition toFixed3 :: "rat \<Rightarrow> rat" where
  "toFixed3 x =
     (if x < 0 then - (of_int \<lfloor>(- x) * 1000 + 1 / 2\<rfloor> / 1000)
      else of_int \<lfloor>x * 1000 + 1 / 2\<rfloor> / 1000)"

definition calcDataAvg :: "(int \<rightharpoonup> rat) \<Rightarrow> int \<Rightarrow> int \<Rightarrow> rat" where
  "calcDataAvg data begin' end' =
     (case calcDataAvg_loop data begin' end' 0 0 of
        (sumAcc, count) \<Rightarrow>
          if count = 0 then 0 else binary64 (toFixed3 (fdiv sumAcc (of_nat count))))"

text \<open>
  \<^verbatim>\<open>nodeMap\<close> and \<^verbatim>\<open>linkMap\<close>: from an entity key to its \<^verbatim>\<open>PropertyLookupMap\<close>, an
  object indexed by property name whose values are maps from time to value. Their
  iteration order is never observed.
\<close>

type_synonym PropertyLookupMap = "string \<rightharpoonup> (int \<rightharpoonup> rat)"
type_synonym LookupMap = "string \<rightharpoonup> PropertyLookupMap"

text \<open>
  \<^verbatim>\<open>map.get(key)[property].set(time, value)\<close>: \<open>None\<close> when \<^verbatim>\<open>get\<close> or the property
  access yields \<^verbatim>\<open>undefined\<close> and the next access throws.
\<close>

definition setSample ::
  "LookupMap \<Rightarrow> string \<Rightarrow> string \<Rightarrow> int \<Rightarrow> rat \<Rightarrow> LookupMap option" where
  "setSample m key property time v =
     (case m key of
        None \<Rightarrow> None
      | Some plm \<Rightarrow>
          (case plm property of
             None \<Rightarrow> None
           | Some data \<Rightarrow> Some (m(key \<mapsto> plm(property \<mapsto> data(time \<mapsto> v))))))"

text \<open>The body shared by the two inner loops of \<^verbatim>\<open>stats.forEach\<close>, for one entity.\<close>

definition recordSample ::
  "LookupMap \<Rightarrow> string \<Rightarrow> int \<Rightarrow> rat \<Rightarrow> rat \<Rightarrow> LookupMap option" where
  "recordSample m key time rpm fpm =
     (let m1 = (if m key = None
                then m(key \<mapsto> [''rpm'' \<mapsto> Map.empty, ''fpm'' \<mapsto> Map.empty])
                else m)
      in case setSample m1 key ''rpm'' time rpm of
           None \<Rightarrow> None
         | Some m2 \<Rightarrow> setSample m2 key ''fpm'' time fpm)"

fun nodeSeriesLoop :: "int \<Rightarrow> NodeStats list \<Rightarrow> LookupMap \<Rightarrow> LookupMap option" where
  "nodeSeriesLoop time [] nodeMap = Some nodeMap"
| "nodeSeriesLoop time (node # rest) nodeMap =
     (case recordSample nodeMap (node_name node) time (node_rpm node) (node_fpm node) of
        None \<Rightarrow> None
      | Some nodeMap' \<Rightarrow> nodeSeriesLoop time rest nodeMap')"

fun linkSeriesLoop :: "int \<Rightarrow> LinkStats list \<Rightarrow> LookupMap \<Rightarrow> LookupMap option" where
  "linkSeriesLoop time [] linkMap = Some linkMap"
| "linkSeriesLoop time (link # rest) linkMap =
     (case recordSample linkMap (getLinkKey (link_source link) (link_target link)) time
             (link_rpm link) (link_fpm link) of
        None \<Rightarrow> None
      | Some linkMap' \<Rightarrow> linkSeriesLoop time rest linkMap')"

text \<open>\<^verbatim>\<open>stats.forEach\<close>: every fetched snapshot feeds both maps, in the fetched order.\<close>

fun statsLoop :: "SystemStats list \<Rightarrow> LookupMap \<times> LookupMap \<Rightarrow> (LookupMap \<times> LookupMap) option" where
  "statsLoop [] st = Some st"
| "statsLoop (stat # rest) (nodeMap, linkMap) =
     (case nodeSeriesLoop (stats_time stat) (stats_nodes stat) nodeMap of
        None \<Rightarrow> None
      | Some nodeMap' \<Rightarrow>
          (case linkSeriesLoop (stats_time stat) (stats_links stat) linkMap of
             None \<Rightarrow> None
           | Some linkMap' \<Rightarrow> statsLoop rest (nodeMap', linkMap')))"

text \<open>
  The closures \<^verbatim>\<open>calcNodeAvg\<close> and \<^verbatim>\<open>calcLinkAvg\<close>; what they capture
  (\<^verbatim>\<open>holder.get("time")\<close> and the lookup map) comes first.
\<close>

definition calcNodeAvg :: "int \<Rightarrow> LookupMap \<Rightarrow> string \<Rightarrow> string \<Rightarrow> int \<Rightarrow> rat option" where
  "calcNodeAvg time nodeMap node property minutes =
     (let end' = time; begin' = end' - minutes * 60
      in case nodeMap node of
           None \<Rightarrow> None
         | Some plm \<Rightarrow>
             (case plm property of
                None \<Rightarrow> None
              | Some data \<Rightarrow> Some (calcDataAvg data begin' end')))"

definition calcLinkAvg ::
  "int \<Rightarrow> LookupMap \<Rightarrow> string \<Rightarrow> string \<Rightarrow> string \<Rightarrow> int \<Rightarrow> rat option" where
  "calcLinkAvg time linkMap source target property minutes =
     (let end' = time; begin' = end' - minutes * 60; key = getLinkKey source target
      in case linkMap key of
           None \<Rightarrow> None
         | Some plm \<Rightarrow>
             (case plm property of
                None \<Rightarrow> None
              | Some data \<Rightarrow> Some (calcDataAvg data begin' end')))"

text \<open>The two result loops over \<^verbatim>\<open>latestStats\<close>, pushing onto \<^verbatim>\<open>result.nodes\<close> and \<^verbatim>\<open>result.links\<close>.\<close>

fun nodeResultLoop ::
  "int \<Rightarrow> LookupMap \<Rightarrow> NodeStats list \<Rightarrow> (string \<times> rat list \<times> rat list) list
    \<Rightarrow> (string \<times> rat list \<times> rat list) list option" where
  "nodeResultLoop time nodeMap [] acc = Some acc"
| "nodeResultLoop time nodeMap (node # rest) acc =
     (case calcNodeAvg time nodeMap (node_name node) ''rpm'' 5 of
        None \<Rightarrow> None
      | Some r5 \<Rightarrow>
     (case calcNodeAvg time nodeMap (node_name node) ''rpm'' 15 of
        None \<Rightarrow> None
      | Some r15 \<Rightarrow>
     (case calcNodeAvg time nodeMap (node_name node) ''fpm'' 5 of
        None \<Rightarrow> None
      | Some f5 \<Rightarrow>
     (case calcNodeAvg time nodeMap (node_name node) ''fpm'' 15 of
        None \<Rightarrow> None
      | Some f15 \<Rightarrow>
          nodeResultLoop time nodeMap rest
            (acc @ [(node_name node, [node_rpm node, r5, r15], [node_fpm node, f5, f15])])))))"

fun linkResultLoop ::
  "int \<Rightarrow> LookupMap \<Rightarrow> LinkStats list \<Rightarrow> (string \<times> string \<times> rat list \<times> rat list) list
    \<Rightarrow> (string \<times> string \<times> rat list \<times> rat list) list option" where
  "linkResultLoop time linkMap [] acc = Some acc"
| "linkResultLoop time linkMap (link # rest) acc =
     (case calcLinkAvg time linkMap (link_source link) (link_target link) ''rpm'' 5 of
        None \<Rightarrow> None
      | Some r5 \<Rightarrow>
     (case calcLinkAvg time linkMap (link_source link) (link_target link) ''rpm'' 15 of
        None \<Rightarrow> None
      | Some r15 \<Rightarrow>
     (case calcLinkAvg time linkMap (link_source link) (link_target link) ''fpm'' 5 of
        None \<Rightarrow> None
      | Some f5 \<Rightarrow>
     (case calcLinkAvg time linkMap (link_source link) (link_target link) ''fpm'' 15 of
        None \<Rightarrow> None
      | Some f15 \<Rightarrow>
          linkResultLoop time linkMap rest
            (acc @ [(link_source link, link_target link,
                     [link_rpm link, r5, r15], [link_fpm link, f5, f15])])))))"

text \<open>
  The second \<^verbatim>\<open>then\<close> callback once \<^verbatim>\<open>stats.length < 1\<close> has been ruled out. A
  \<^verbatim>\<open>TypeError\<close> thrown in it rejects the promise with that error.
\<close>

definition composeResult :: "int \<Rightarrow> SystemStats list \<Rightarrow> ('e, SystemStatsDto) outcome" where
  "composeResult time stats =
     (case statsLoop stats (Map.empty, Map.empty) of
        None \<Rightarrow> TypeError
      | Some (nodeMap, linkMap) \<Rightarrow>
          (case stats of
             [] \<Rightarrow> TypeError
           | latestStats # _ \<Rightarrow>
               (case nodeResultLoop time nodeMap (stats_nodes latestStats) [] of
                  None \<Rightarrow> TypeError
                | Some ns \<Rightarrow>
                    (case linkResultLoop time linkMap (stats_links latestStats) [] of
                       None \<Rightarrow> TypeError
                     | Some ls \<Rightarrow>
                         Resolved \<lparr>dto_time = time, dto_nodes = ns, dto_links = ls\<rparr>))))"

text \<open>
  \<^verbatim>\<open>getSystemStats\<close>. The two reads of the repository are parameters: the result of
  \<^verbatim>\<open>getLatestStatsTime()\<close> (\<open>Inr None\<close> is \<^verbatim>\<open>null\<close>) and the range read
  \<^verbatim>\<open>getSystemStats(begin, end)\<close>. When the latest time is \<^verbatim>\<open>null\<close> the first callback
  hands \<^verbatim>\<open>[ ]\<close> to the second, which returns the initial \<^verbatim>\<open>result\<close> at its first line.
\<close>

definition getSystemStats ::
  "('e + int option) \<Rightarrow> (int \<Rightarrow> int \<Rightarrow> 'e + SystemStats list) \<Rightarrow> ('e, SystemStatsDto) outcome" where
  "getSystemStats getLatestStatsTime repoGetSystemStats =
     (case getLatestStatsTime of
        Inl e \<Rightarrow> Rejected e
      | Inr None \<Rightarrow> Resolved \<lparr>dto_time = 0, dto_nodes = [], dto_links = []\<rparr>
      | Inr (Some time) \<Rightarrow>
          (case repoGetSystemStats (time - 14 * 60) time of
             Inl e \<Rightarrow> Rejected e
           | Inr stats \<Rightarrow>
               if length stats < 1
               then Resolved \<lparr>dto_time = 0, dto_nodes = [], dto_links = []\<rparr>
               else composeResult time stats))"

section \<open>Notions the properties are stated with\<close>

text \<open>
  The timestamps \<open>begin, begin + 60, ...\<close> up to \<open>end\<close> in closed form; lemma
  \<open>calcDataAvg_loop_scan\<close> below shows that they are the ones the loop of
  \<^verbatim>\<open>calcDataAvg\<close> visits.
\<close>

definition scanTimes :: "int \<Rightarrow> int \<Rightarrow> int list" where
  "scanTimes begin' end' = map (\<lambda>k. begin' + 60 * k) [0..(end' - begin') div 60]"

text \<open>
  The sum of a metric over the links of a snapshot whose target is \<open>n\<close>, as binary64
  arithmetic adds them up from 0 in list order.
\<close>

definition inbound :: "(LinkStats \<Rightarrow> rat) \<Rightarrow> string \<Rightarrow> LinkStats list \<Rightarrow> rat" where
  "inbound f n links = foldl fadd 0 (map f (filter (\<lambda>l. link_target l = n) links))"

text \<open>The running total of a system in the \<^verbatim>\<open>systems\<close> map, zero while it has no entry.\<close>

definition total_of :: "(SystemInfo \<Rightarrow> rat) \<Rightarrow> (string \<times> SystemInfo) list \<Rightarrow> string \<Rightarrow> rat" where
  "total_of f systems k = (case map_of systems k of None \<Rightarrow> 0 | Some v \<Rightarrow> f v)"

text \<open>The loop invariant of ingestion: keys are unique and every total is the inbound sum.\<close>

definition accumulated :: "(string \<times> SystemInfo) list \<Rightarrow> LinkStats list \<Rightarrow> bool" where
  "accumulated systems links \<longleftrightarrow>
     distinct (map fst systems) \<and>
     (\<forall>k. total_of sys_rpm systems k = inbound link_rpm k links \<and>
          total_of sys_fpm systems k = inbound link_fpm k links)"

text \<open>Every link pushed so far has both its endpoints in the \<^verbatim>\<open>systems\<close> map.\<close>

definition endpoints_known :: "(string \<times> SystemInfo) list \<Rightarrow> LinkStats list \<Rightarrow> bool" where
  "endpoints_known systems links \<longleftrightarrow>
     (\<forall>l \<in> set links. map_of systems (link_source l) \<noteq> None \<and>
                       map_of systems (link_target l) \<noteq> None)"

text \<open>The invariant of the lookup maps: every entry carries both property series.\<close>

definition wfLookup :: "LookupMap \<Rightarrow> bool" where
  "wfLookup m \<longleftrightarrow>
     (\<forall>k plm. m k = Some plm \<longrightarrow> plm ''rpm'' \<noteq> None \<and> plm ''fpm'' \<noteq> None)"

section \<open>Evaluating numbers\<close>

lemma floor_rat_numeral_div:
  "\<lfloor>(numeral a :: rat) / numeral b\<rfloor> = numeral a div numeral b"
  using floor_divide_of_int_eq [of "numeral a" "numeral b", where ?'a = rat] by simp

lemma floor_rat_one_div:
  "\<lfloor>(1 :: rat) / numeral b\<rfloor> = 1 div numeral b"
  using floor_divide_of_int_eq [of 1 "numeral b", where ?'a = rat] by simp

text \<open>The equations that evaluate \<open>binary64\<close> at a given number.\<close>

lemmas binary64_eval =
  fadd_def fdiv_def binary64_def scaleDown.simps scaleUp.simps roundTiesToEven_def pow2_def
  Let_def floor_rat_numeral_div floor_rat_one_div

lemma binary64_small:
  "binary64 1 = 1" "binary64 2 = 2" "binary64 3 = 3" "binary64 5 = 5" "binary64 7 = 7"
  "binary64 10 = 10" "binary64 15 = 15" "binary64 20 = 20" "binary64 30 = 30"
  "binary64 (3 / 2) = 3 / 2" "binary64 (3 / 16) = 3 / 16"
  by (simp_all add: binary64_eval)

lemma fadd_zero [simp]: "fadd 0 0 = 0"
  by (simp add: fadd_def binary64_def)

text \<open>The binary64 values that the decimals 0.1, 0.2, 0.037 and 0.038 denote.\<close>

lemma binary64_decimals:
  "binary64 (1 / 10) = 3602879701896397 / 36028797018963968"
  "binary64 (2 / 10) = 3602879701896397 / 18014398509481984"
  "binary64 (37 / 1000) = 5332261958806667 / 144115188075855872"
  "binary64 (38 / 1000) = 5476377146882523 / 144115188075855872"
  by (simp_all add: binary64_eval)

text \<open>
  Known values: 0.1 + 0.2 is 0.30000000000000004, above \<open>2 ^ 53\<close> odd integers are
  rounded to even ones, and below the smallest subnormal value half of it rounds to 0.
\<close>

lemma binary64_checks:
  "fadd (binary64 (1 / 10)) (binary64 (2 / 10)) = 1351079888211149 / 4503599627370496"
  "fadd 9007199254740992 1 = 9007199254740992"
  "fadd 9007199254740992 3 = 9007199254740996"
  "fdiv (3 / 16) 5 = 5404319552844595 / 144115188075855872"
  "fdiv 1 3 = 6004799503160661 / 18014398509481984"
  by (simp_all add: binary64_eval)

lemma binary64_subnormal:
  "binary64 (1 / 2 ^ 1075) = 0"
  "binary64 (3 / 2 ^ 1075) = 2 / 2 ^ 1074"
  by (simp_all add: binary64_eval)

text \<open>Integers of magnitude below \<open>2 ^ 53\<close> are binary64 values.\<close>

lemma pow2_step: "pow2 (q - 1) * 2 = pow2 q"
proof (cases "1 \<le> q")
  case True
  then have "nat q = Suc (nat (q - 1))" by simp
  then show ?thesis using True by (simp add: pow2_def)
next
  case False
  then have "nat (- (q - 1)) = Suc (nat (- q))" by simp
  then show ?thesis using False by (simp add: pow2_def)
qed

lemma scaleUp_invariant:
  "scaleUp m q = (m', q') \<Longrightarrow> m' * pow2 q' = m * pow2 q \<and> (m \<in> \<int> \<longrightarrow> m' \<in> \<int>)"
proof (induction m q rule: scaleUp.induct)
  case (1 m q)
  show ?case
  proof (cases "m < 2 ^ 52 \<and> - 1074 < q")
    case True
    then have "scaleUp (m * 2) (q - 1) = (m', q')"
      using "1.prems" by (simp add: scaleUp.simps [of m q])
    from "1.IH" [OF True this]
    have "m' * pow2 q' = m * 2 * pow2 (q - 1)" and "m * 2 \<in> \<int> \<longrightarrow> m' \<in> \<int>" by simp_all
    moreover have "m * 2 * pow2 (q - 1) = m * pow2 q"
      using pow2_step [of q] by (simp add: mult.assoc mult.commute)
    moreover have "m \<in> \<int> \<Longrightarrow> m * 2 \<in> \<int>" by simp
    ultimately show ?thesis by auto
  next
    case False
    then have "scaleUp m q = (m, q)" by (subst scaleUp.simps) (rule if_not_P)
    then show ?thesis using "1.prems" by simp
  qed
qed

lemma binary64_of_int:
  assumes "\<bar>n\<bar> < 2 ^ 53"
  shows "binary64 (of_int n) = of_int n"
proof (cases "n = 0")
  case True
  then show ?thesis by (simp add: binary64_def)
next
  case False
  define x :: rat where "x = of_int n"
  have ax: "\<bar>x\<bar> < 2 ^ 53" using assms unfolding x_def
    by (metis of_int_abs of_int_less_iff of_int_numeral of_int_power)
  have d: "scaleDown \<bar>x\<bar> 0 = (\<bar>x\<bar>, 0)" using ax by (simp add: scaleDown.simps)
  obtain m q where u: "scaleUp \<bar>x\<bar> 0 = (m, q)" by (cases "scaleUp \<bar>x\<bar> 0")
  have "\<bar>x\<bar> \<in> \<int>" by (simp add: x_def)
  with scaleUp_invariant [OF u] have inv: "m * pow2 q = \<bar>x\<bar>" and mi: "m \<in> \<int>"
    by (simp_all add: pow2_def)
  from mi obtain k :: int where k: "m = of_int k" by (auto elim: Ints_cases)
  have r: "roundTiesToEven m = k" by (simp add: roundTiesToEven_def k)
  have "binary64 x = sgn x * of_int k * pow2 q"
    using False by (simp add: binary64_def x_def [symmetric] d u r)
  also have "\<dots> = sgn x * \<bar>x\<bar>" using inv by (simp add: k)
  also have "\<dots> = x" by (simp add: sgn_mult_abs)
  finally show ?thesis by (simp add: x_def)
qed

section \<open>Ingestion never throws\<close>

lemma map_of_ensure:
  "\<exists>v. map_of (if map_of m k = None then AList.update k d m else m) k = Some v"
  by (cases "map_of m k") (simp_all add: AList.update_conv')

lemma hostLoop_total: "\<exists>r. hostLoop time system target hostsIn (hs, rpm, fpm, infos) = Some r"
proof (induction hostsIn arbitrary: hs rpm fpm infos)
  case Nil
  then show ?case by simp
next
  case (Cons a hostsIn)
  obtain host info where a: "a = (host, info)" by (cases a)
  show ?case using Cons.IH
    by (auto simp: a Let_def AList.update_conv' split: option.splits)
qed

lemma targetLoop_total: "\<exists>r. targetLoop time system targetsIn (systems, links, infos) = Some r"
proof (induction targetsIn arbitrary: systems links infos)
  case Nil
  then show ?case by simp
next
  case (Cons a targetsIn)
  obtain target hostsIn where a: "a = (target, hostsIn)" by (cases a)
  define systems1 where "systems1 = (if map_of systems target = None
      then AList.update target \<lparr>sys_rpm = 0, sys_fpm = 0, sys_hosts = []\<rparr> systems else systems)"
  obtain targetSystem where g: "map_of systems1 target = Some targetSystem"
    unfolding systems1_def using map_of_ensure [of systems target] by blast
  obtain hs rpm fpm i2 where
    h: "hostLoop time system target hostsIn (sys_hosts targetSystem, 0, 0, infos) = Some (hs, rpm, fpm, i2)"
    using hostLoop_total [of time system target hostsIn "sys_hosts targetSystem" 0 0 infos] by auto
  show ?case using Cons.IH g h
    by (simp add: a systems1_def [symmetric])
qed

lemma systemLoop_total: "\<exists>r. systemLoop time stats (systems, links, infos) = Some r"
proof (induction stats arbitrary: systems links infos)
  case Nil
  then show ?case by simp
next
  case (Cons a stats)
  obtain system targetsIn where a: "a = (system, targetsIn)" by (cases a)
  define systems1 where "systems1 = (if map_of systems system = None
      then AList.update system \<lparr>sys_rpm = 0, sys_fpm = 0, sys_hosts = []\<rparr> systems else systems)"
  obtain s2 l2 i2 where t: "targetLoop time system targetsIn (systems1, links, infos) = Some (s2, l2, i2)"
    using targetLoop_total [of time system targetsIn systems1 links infos] by auto
  show ?case using Cons.IH [of s2 l2 i2] t
    by (simp add: a systems1_def [symmetric])
qed

text \<open>
  What the innermost loop adds: the link sums grow, one binary64 addition per host, by the
  fields with absent ones taken as 0, and one detail row per host is appended that carries
  the two fields as they were read.
\<close>

lemma hostLoop_effect:
  "hostLoop time system target hostsIn (hs, rpm, fpm, infos) = Some (hs', rpm', fpm', infos') \<Longrightarrow>
   rpm' = foldl fadd rpm (map (\<lambda>(host, info). orZero (in_rpm info)) hostsIn) \<and>
   fpm' = foldl fadd fpm (map (\<lambda>(host, info). orZero (in_fpm info)) hostsIn) \<and>
   infos' = infos @
     map (\<lambda>(host, info).
            \<lparr>attr_time = time, attr_name = target, attr_node = host, attr_source = system,
             attr_rpm = in_rpm info, attr_fpm = in_fpm info\<rparr>) hostsIn"
proof (induction hostsIn arbitrary: hs rpm fpm infos)
  case Nil
  then show ?case by simp
next
  case (Cons a hostsIn)
  obtain host info where a: "a = (host, info)" by (cases a)
  define hs1 where "hs1 = (if map_of hs host = None
      then AList.update host \<lparr>host_rpm = 0, host_fpm = 0\<rparr> hs else hs)"
  obtain targetServer where g: "map_of hs1 host = Some targetServer"
    unfolding hs1_def using map_of_ensure [of hs host] by blast
  have step: "hostLoop time system target hostsIn
       (AList.update host
          \<lparr>host_rpm = fadd (host_rpm targetServer) (orZero (in_rpm info)),
           host_fpm = fadd (host_fpm targetServer) (orZero (in_fpm info))\<rparr> hs1,
        fadd rpm (orZero (in_rpm info)), fadd fpm (orZero (in_fpm info)),
        infos @ [\<lparr>attr_time = time, attr_name = target, attr_node = host,
                  attr_source = system, attr_rpm = in_rpm info, attr_fpm = in_fpm info\<rparr>])
     = Some (hs', rpm', fpm', infos')"
    using Cons.prems g by (simp add: a hs1_def [symmetric])
  show ?case using Cons.IH [OF step] by (simp add: a)
qed

section \<open>The accumulation invariant\<close>

lemma accumulated_ensure:
  assumes "accumulated systems links"
  shows "accumulated (if map_of systems k = None
            then AList.update k \<lparr>sys_rpm = 0, sys_fpm = 0, sys_hosts = []\<rparr> systems
            else systems) links"
proof (cases "map_of systems k")
  case None
  have "total_of f (AList.update k \<lparr>sys_rpm = 0, sys_fpm = 0, sys_hosts = []\<rparr> systems) k'
        = total_of f systems k'" if "f = sys_rpm \<or> f = sys_fpm" for f k'
    using that None by (auto simp: total_of_def AList.update_conv')
  then show ?thesis using assms None
    by (simp add: accumulated_def AList.distinct_update)
next
  case (Some v)
  then show ?thesis using assms by simp
qed

lemma accumulated_push:
  assumes "accumulated systems links" and "map_of systems target = Some targetSystem"
  shows "accumulated
           (AList.update target
              \<lparr>sys_rpm = fadd (sys_rpm targetSystem) rpm, sys_fpm = fadd (sys_fpm targetSystem) fpm,
               sys_hosts = hs\<rparr> systems)
           (links @ [\<lparr>link_source = system, link_target = target,
                      link_rpm = rpm, link_fpm = fpm\<rparr>])"
proof -
  have r: "sys_rpm targetSystem = inbound link_rpm target links"
    and f: "sys_fpm targetSystem = inbound link_fpm target links"
    using assms by (auto simp: accumulated_def total_of_def split: option.splits)
  have others: "total_of g systems k = inbound h k links \<Longrightarrow> k \<noteq> target \<Longrightarrow>
      total_of g (AList.update target v systems) k =
      inbound h k (links @ [\<lparr>link_source = system, link_target = target,
                      link_rpm = rpm, link_fpm = fpm\<rparr>])" for g h k v
    by (simp add: total_of_def inbound_def AList.update_conv')
  have self: "total_of g (AList.update target v systems) target = g v" for g v
    by (simp add: total_of_def AList.update_conv')
  have d: "distinct (map fst (AList.update target v systems))" for v
    using assms(1) by (simp add: accumulated_def AList.distinct_update)
  show ?thesis
    unfolding accumulated_def
  proof (intro conjI allI)
    fix k
    show "total_of sys_rpm (AList.update target
              \<lparr>sys_rpm = fadd (sys_rpm targetSystem) rpm, sys_fpm = fadd (sys_fpm targetSystem) fpm,
               sys_hosts = hs\<rparr> systems) k =
          inbound link_rpm k (links @ [\<lparr>link_source = system, link_target = target,
                      link_rpm = rpm, link_fpm = fpm\<rparr>])"
    proof (cases "k = target")
      case True
      then show ?thesis by (simp add: self r) (simp add: inbound_def)
    next
      case False
      then show ?thesis using assms(1) others by (simp add: accumulated_def)
    qed
    show "total_of sys_fpm (AList.update target
              \<lparr>sys_rpm = fadd (sys_rpm targetSystem) rpm, sys_fpm = fadd (sys_fpm targetSystem) fpm,
               sys_hosts = hs\<rparr> systems) k =
          inbound link_fpm k (links @ [\<lparr>link_source = system, link_target = target,
                      link_rpm = rpm, link_fpm = fpm\<rparr>])"
    proof (cases "k = target")
      case True
      then show ?thesis by (simp add: self f) (simp add: inbound_def)
    next
      case False
      then show ?thesis using assms(1) others by (simp add: accumulated_def)
    qed
  qed (rule d)
qed

lemma targetLoop_accumulated:
  "targetLoop time system targetsIn (systems, links, infos) = Some (systems', links', infos')
   \<Longrightarrow> accumulated systems links \<Longrightarrow> accumulated systems' links'"
proof (induction targetsIn arbitrary: systems links infos)
  case Nil
  then show ?case by simp
next
  case (Cons a targetsIn)
  obtain target hostsIn where a: "a = (target, hostsIn)" by (cases a)
  define systems1 where "systems1 = (if map_of systems target = None
      then AList.update target \<lparr>sys_rpm = 0, sys_fpm = 0, sys_hosts = []\<rparr> systems else systems)"
  have acc1: "accumulated systems1 links"
    unfolding systems1_def using Cons.prems(2) by (rule accumulated_ensure)
  obtain targetSystem where g: "map_of systems1 target = Some targetSystem"
    unfolding systems1_def using map_of_ensure [of systems target] by blast
  obtain hs rpm fpm i2 where
    h: "hostLoop time system target hostsIn (sys_hosts targetSystem, 0, 0, infos) = Some (hs, rpm, fpm, i2)"
    using hostLoop_total [of time system target hostsIn "sys_hosts targetSystem" 0 0 infos] by auto
  have step: "targetLoop time system targetsIn
       (AList.update target
          \<lparr>sys_rpm = fadd (sys_rpm targetSystem) rpm, sys_fpm = fadd (sys_fpm targetSystem) fpm,
           sys_hosts = hs\<rparr> systems1,
        links @ [\<lparr>link_source = system, link_target = target, link_rpm = rpm, link_fpm = fpm\<rparr>],
        i2) = Some (systems', links', infos')"
    using Cons.prems(1) g h by (simp add: a systems1_def [symmetric])
  show ?case
    by (rule Cons.IH [OF step]) (rule accumulated_push [OF acc1 g])
qed

lemma systemLoop_accumulated:
  "systemLoop time stats (systems, links, infos) = Some (systems', links', infos')
   \<Longrightarrow> accumulated systems links \<Longrightarrow> accumulated systems' links'"
proof (induction stats arbitrary: systems links infos)
  case Nil
  then show ?case by simp
next
  case (Cons a stats)
  obtain system targetsIn where a: "a = (system, targetsIn)" by (cases a)
  define systems1 where "systems1 = (if map_of systems system = None
      then AList.update system \<lparr>sys_rpm = 0, sys_fpm = 0, sys_hosts = []\<rparr> systems else systems)"
  have acc1: "accumulated systems1 links"
    unfolding systems1_def using Cons.prems(2) by (rule accumulated_ensure)
  obtain s2 l2 i2 where t: "targetLoop time system targetsIn (systems1, links, infos) = Some (s2, l2, i2)"
    using targetLoop_total [of time system targetsIn systems1 links infos] by auto
  have step: "systemLoop time stats (s2, l2, i2) = Some (systems', links', infos')"
    using Cons.prems(1) t by (simp add: a systems1_def [symmetric])
  show ?case
    by (rule Cons.IH [OF step]) (rule targetLoop_accumulated [OF t acc1])
qed

lemma accumulated_empty: "accumulated [] []"
  by (simp add: accumulated_def total_of_def inbound_def)

lemma endpoints_known_update:
  "endpoints_known systems links \<Longrightarrow> endpoints_known (AList.update k v systems) links"
  by (simp add: endpoints_known_def AList.update_conv')

lemma endpoints_known_ensure:
  "endpoints_known systems links \<Longrightarrow>
   endpoints_known (if map_of systems k = None then AList.update k d systems else systems) links"
  by (simp add: endpoints_known_update)

lemma map_of_ensure_keeps:
  "map_of systems k' \<noteq> None \<Longrightarrow>
   map_of (if map_of systems k = None then AList.update k d systems else systems) k' \<noteq> None"
  by (simp add: AList.update_conv')

lemma targetLoop_endpoints:
  "targetLoop time system targetsIn (systems, links, infos) = Some (systems', links', infos')
   \<Longrightarrow> endpoints_known systems links \<Longrightarrow> map_of systems system \<noteq> None
   \<Longrightarrow> endpoints_known systems' links' \<and> map_of systems' system \<noteq> None"
proof (induction targetsIn arbitrary: systems links infos)
  case Nil
  then show ?case by simp
next
  case (Cons a targetsIn)
  obtain target hostsIn where a: "a = (target, hostsIn)" by (cases a)
  define systems1 where "systems1 = (if map_of systems target = None
      then AList.update target \<lparr>sys_rpm = 0, sys_fpm = 0, sys_hosts = []\<rparr> systems else systems)"
  have e1: "endpoints_known systems1 links"
    unfolding systems1_def using Cons.prems(2) by (rule endpoints_known_ensure)
  have s1: "map_of systems1 system \<noteq> None"
    unfolding systems1_def using Cons.prems(3) by (rule map_of_ensure_keeps)
  obtain targetSystem where g: "map_of systems1 target = Some targetSystem"
    unfolding systems1_def using map_of_ensure [of systems target] by blast
  obtain hs rpm fpm i2 where
    h: "hostLoop time system target hostsIn (sys_hosts targetSystem, 0, 0, infos) = Some (hs, rpm, fpm, i2)"
    using hostLoop_total [of time system target hostsIn "sys_hosts targetSystem" 0 0 infos] by auto
  define systems2 where "systems2 = AList.update target
          \<lparr>sys_rpm = fadd (sys_rpm targetSystem) rpm, sys_fpm = fadd (sys_fpm targetSystem) fpm,
           sys_hosts = hs\<rparr> systems1"
  define link where "link = \<lparr>link_source = system, link_target = target, link_rpm = rpm, link_fpm = fpm\<rparr>"
  have step: "targetLoop time system targetsIn (systems2, links @ [link], i2)
       = Some (systems', links', infos')"
    using Cons.prems(1) g h by (simp add: a systems1_def [symmetric] systems2_def link_def)
  have s2: "map_of systems2 system \<noteq> None"
    using s1 by (simp add: systems2_def AList.update_conv')
  have t2: "map_of systems2 target \<noteq> None"
    by (simp add: systems2_def AList.update_conv')
  have "endpoints_known systems2 links"
    unfolding systems2_def using e1 by (rule endpoints_known_update)
  then have e2: "endpoints_known systems2 (links @ [link])"
    using s2 t2 by (simp add: endpoints_known_def link_def)
  show ?case by (rule Cons.IH [OF step e2 s2])
qed

lemma systemLoop_endpoints:
  "systemLoop time stats (systems, links, infos) = Some (systems', links', infos')
   \<Longrightarrow> endpoints_known systems links \<Longrightarrow> endpoints_known systems' links'"
proof (induction stats arbitrary: systems links infos)
  case Nil
  then show ?case by simp
next
  case (Cons a stats)
  obtain system targetsIn where a: "a = (system, targetsIn)" by (cases a)
  define systems1 where "systems1 = (if map_of systems system = None
      then AList.update system \<lparr>sys_rpm = 0, sys_fpm = 0, sys_hosts = []\<rparr> systems else systems)"
  have e1: "endpoints_known systems1 links"
    unfolding systems1_def using Cons.prems(2) by (rule endpoints_known_ensure)
  have s1: "map_of systems1 system \<noteq> None"
    unfolding systems1_def using map_of_ensure [of systems system] by auto
  obtain s2 l2 i2 where t: "targetLoop time system targetsIn (systems1, links, infos) = Some (s2, l2, i2)"
    using targetLoop_total [of time system targetsIn systems1 links infos] by auto
  have step: "systemLoop time stats (s2, l2, i2) = Some (systems', links', infos')"
    using Cons.prems(1) t by (simp add: a systems1_def [symmetric])
  have e2: "endpoints_known s2 l2"
    using targetLoop_endpoints [OF t e1 s1] by simp
  show ?case by (rule Cons.IH [OF step e2])
qed

section \<open>The averaging loop in closed form\<close>

lemma map_shift_upto: "map (\<lambda>k. k + c) [i..j] = [i + c..j + c]"
proof (induction i j rule: upto.induct)
  case (1 i j)
  show ?case
  proof (cases "i \<le> j")
    case True
    have e: "i + c + 1 = i + 1 + c" by simp
    have "[i + c..j + c] = (i + c) # [i + c + 1..j + c]"
      using True by (intro upto_rec1) simp
    then have "[i + c..j + c] = (i + c) # [i + 1 + c..j + c]"
      by (simp only: e)
    then show ?thesis using True 1 by (simp add: upto_rec1 [of i j])
  next
    case False
    then show ?thesis by simp
  qed
qed

lemma scanTimes_rec:
  "scanTimes t e = (if t \<le> e then t # scanTimes (t + 60) e else [])"
proof (cases "t \<le> e")
  case True
  define n where "n = (e - t) div 60"
  have n0: "0 \<le> n" using True by (simp add: n_def)
  have n1: "(e - (t + 60)) div 60 = n - 1" by (simp add: n_def)
  have "[0..n] = 0 # [1..n]" using n0 by (simp add: upto_rec1)
  moreover have "[1..n] = map (\<lambda>k. k + 1) [0..n - 1]"
    using map_shift_upto [of 1 0 "n - 1"] by simp
  ultimately have "map (\<lambda>k. t + 60 * k) [0..n] = t # map (\<lambda>k. t + 60 + 60 * k) [0..n - 1]"
    by (simp add: comp_def algebra_simps)
  then show ?thesis using True by (simp add: scanTimes_def n1 n_def [symmetric])
next
  case False
  then show ?thesis by (simp add: scanTimes_def)
qed

lemma calcDataAvg_loop_scan:
  "calcDataAvg_loop data t e s c =
     (foldl fadd s (List.map_filter data (scanTimes t e)),
      c + length (List.map_filter data (scanTimes t e)))"
proof (induction data t e s c rule: calcDataAvg_loop.induct)
  case (1 data time end' sumAcc count)
  show ?case
  proof (cases "time \<le> end'")
    case False
    then show ?thesis
      by (simp add: calcDataAvg_loop.simps [of data time] scanTimes_rec [of time])
  next
    case le: True
    show ?thesis
    proof (cases "data time")
      case None
      then show ?thesis using le 1
        by (simp add: calcDataAvg_loop.simps [of data time] scanTimes_rec [of time])
    next
      case (Some v)
      then show ?thesis using le 1
        by (simp add: calcDataAvg_loop.simps [of data time] scanTimes_rec [of time])
    qed
  qed
qed

lemma toFixed3_grid: "\<exists>n::int. toFixed3 x = of_int n / 1000"
  by (auto simp: toFixed3_def) (metis of_int_minus)

lemma round_near:
  fixes y :: rat
  shows "\<bar>of_int \<lfloor>y * 1000 + 1 / 2\<rfloor> / 1000 - y\<bar> \<le> 1 / 2000"
proof -
  define n where "n = \<lfloor>y * 1000 + 1 / 2\<rfloor>"
  have "of_int n \<le> y * 1000 + 1 / 2" "y * 1000 + 1 / 2 < of_int n + 1"
    unfolding n_def by linarith+
  then show ?thesis unfolding n_def [symmetric] by linarith
qed

lemma toFixed3_near: "\<bar>toFixed3 x - x\<bar> \<le> 1 / 2000"
proof (cases "x < 0")
  case True
  have "\<bar>- (of_int \<lfloor>(- x) * 1000 + 1 / 2\<rfloor> / 1000) - x\<bar> =
        \<bar>of_int \<lfloor>(- x) * 1000 + 1 / 2\<rfloor> / 1000 - (- x)\<bar>"
    by (simp add: abs_minus_commute)
  then show ?thesis using True round_near [of "- x"] by (simp add: toFixed3_def)
next
  case False
  then show ?thesis using round_near [of x] by (simp add: toFixed3_def)
qed

section \<open>The lookup maps always hold what the result loops read\<close>

lemma setSample_ok:
  assumes "wfLookup m" and "m key = Some plm" and "plm property = Some data"
  shows "\<exists>m'. setSample m key property time v = Some m' \<and> wfLookup m' \<and> dom m' = dom m"
  using assms by (auto simp: setSample_def wfLookup_def)

lemma recordSample_ok:
  assumes "wfLookup m"
  shows "\<exists>m'. recordSample m key time rpm fpm = Some m' \<and> wfLookup m' \<and>
           dom m' = insert key (dom m)"
proof -
  define m1 where "m1 = (if m key = None
      then m(key \<mapsto> [''rpm'' \<mapsto> Map.empty, ''fpm'' \<mapsto> Map.empty]) else m)"
  have wf1: "wfLookup m1" using assms by (auto simp: m1_def wfLookup_def)
  have d1: "dom m1 = insert key (dom m)" by (auto simp: m1_def)
  obtain plm where k1: "m1 key = Some plm" using d1 by blast
  obtain dr where r: "plm ''rpm'' = Some dr" using wf1 k1 by (auto simp: wfLookup_def)
  obtain m2 where s2: "setSample m1 key ''rpm'' time rpm = Some m2"
    and wf2: "wfLookup m2" and d2: "dom m2 = dom m1"
    using setSample_ok [OF wf1 k1 r] by blast
  obtain plm2 where k2: "m2 key = Some plm2" using d1 d2 by blast
  obtain df where f: "plm2 ''fpm'' = Some df" using wf2 k2 by (auto simp: wfLookup_def)
  obtain m3 where s3: "setSample m2 key ''fpm'' time fpm = Some m3"
    and wf3: "wfLookup m3" and d3: "dom m3 = dom m2"
    using setSample_ok [OF wf2 k2 f] by blast
  have "recordSample m key time rpm fpm = Some m3"
    by (simp add: recordSample_def m1_def [symmetric] s2 s3)
  then show ?thesis using wf3 d1 d2 d3 by simp
qed

lemma nodeSeriesLoop_ok:
  "wfLookup m \<Longrightarrow> \<exists>m'. nodeSeriesLoop time nodes m = Some m' \<and> wfLookup m' \<and>
      dom m' = dom m \<union> node_name ` set nodes"
proof (induction nodes arbitrary: m)
  case Nil
  then show ?case by simp
next
  case (Cons node nodes)
  obtain m1 where r: "recordSample m (node_name node) time (node_rpm node) (node_fpm node) = Some m1"
    and wf1: "wfLookup m1" and d1: "dom m1 = insert (node_name node) (dom m)"
    using recordSample_ok [of m "node_name node" time "node_rpm node" "node_fpm node", OF Cons.prems]
    by blast
  obtain m' where "nodeSeriesLoop time nodes m1 = Some m'" "wfLookup m'"
    "dom m' = dom m1 \<union> node_name ` set nodes"
    using Cons.IH [OF wf1] by blast
  then have "nodeSeriesLoop time (node # nodes) m = Some m' \<and> wfLookup m' \<and>
      dom m' = dom m \<union> node_name ` set (node # nodes)"
    by (simp add: r d1)
  then show ?case by (rule exI [of _ m'])
qed

lemma linkSeriesLoop_ok:
  "wfLookup m \<Longrightarrow> \<exists>m'. linkSeriesLoop time links m = Some m' \<and> wfLookup m' \<and>
      dom m' = dom m \<union> (\<lambda>l. getLinkKey (link_source l) (link_target l)) ` set links"
proof (induction links arbitrary: m)
  case Nil
  then show ?case by simp
next
  case (Cons link links)
  obtain m1 where r: "recordSample m (getLinkKey (link_source link) (link_target link)) time
        (link_rpm link) (link_fpm link) = Some m1"
    and wf1: "wfLookup m1"
    and d1: "dom m1 = insert (getLinkKey (link_source link) (link_target link)) (dom m)"
    using recordSample_ok [of m "getLinkKey (link_source link) (link_target link)" time
        "link_rpm link" "link_fpm link", OF Cons.prems]
    by blast
  obtain m' where "linkSeriesLoop time links m1 = Some m'" "wfLookup m'"
    "dom m' = dom m1 \<union> (\<lambda>l. getLinkKey (link_source l) (link_target l)) ` set links"
    using Cons.IH [OF wf1] by blast
  then have "linkSeriesLoop time (link # links) m = Some m' \<and> wfLookup m' \<and>
      dom m' = dom m \<union> (\<lambda>l. getLinkKey (link_source l) (link_target l)) ` set (link # links)"
    by (simp add: r d1)
  then show ?case by (rule exI [of _ m'])
qed

lemma statsLoop_total:
  "wfLookup nm \<Longrightarrow> wfLookup lm \<Longrightarrow>
   \<exists>nm' lm'. statsLoop stats (nm, lm) = Some (nm', lm') \<and> wfLookup nm' \<and> wfLookup lm'"
proof (induction stats arbitrary: nm lm)
  case Nil
  then show ?case by simp
next
  case (Cons stat stats)
  obtain nm1 where n: "nodeSeriesLoop (stats_time stat) (stats_nodes stat) nm = Some nm1"
    and wfn: "wfLookup nm1"
    using nodeSeriesLoop_ok [of nm "stats_time stat" "stats_nodes stat", OF Cons.prems(1)] by blast
  obtain lm1 where l: "linkSeriesLoop (stats_time stat) (stats_links stat) lm = Some lm1"
    and wfl: "wfLookup lm1"
    using linkSeriesLoop_ok [of lm "stats_time stat" "stats_links stat", OF Cons.prems(2)] by blast
  show ?case using Cons.IH [OF wfn wfl] by (simp add: n l)
qed

lemma statsLoop_mono:
  "statsLoop stats (nm, lm) = Some (nm', lm') \<Longrightarrow> wfLookup nm \<Longrightarrow> wfLookup lm \<Longrightarrow>
   dom nm \<subseteq> dom nm' \<and> dom lm \<subseteq> dom lm'"
proof (induction stats arbitrary: nm lm)
  case Nil
  then show ?case by simp
next
  case (Cons stat stats)
  obtain nm1 where n: "nodeSeriesLoop (stats_time stat) (stats_nodes stat) nm = Some nm1"
    and wfn: "wfLookup nm1" and dn: "dom nm1 = dom nm \<union> node_name ` set (stats_nodes stat)"
    using nodeSeriesLoop_ok [of nm "stats_time stat" "stats_nodes stat", OF Cons.prems(2)] by blast
  obtain lm1 where l: "linkSeriesLoop (stats_time stat) (stats_links stat) lm = Some lm1"
    and wfl: "wfLookup lm1"
    and dl: "dom lm1 = dom lm \<union>
        (\<lambda>l. getLinkKey (link_source l) (link_target l)) ` set (stats_links stat)"
    using linkSeriesLoop_ok [of lm "stats_time stat" "stats_links stat", OF Cons.prems(3)] by blast
  have step: "statsLoop stats (nm1, lm1) = Some (nm', lm')"
    using Cons.prems(1) by (simp add: n l)
  have ih: "dom nm1 \<subseteq> dom nm'" "dom lm1 \<subseteq> dom lm'"
    using Cons.IH [OF step wfn wfl] by simp_all
  have "dom nm \<subseteq> dom nm1" "dom lm \<subseteq> dom lm1"
    unfolding dn dl by (rule Un_upper1)+
  then show ?case using ih by (simp only: subset_trans [OF _ ih(1)] subset_trans [OF _ ih(2)])
qed

lemma statsLoop_latest:
  assumes "statsLoop (latestStats # older) (Map.empty, Map.empty) = Some (nodeMap, linkMap)"
  shows "wfLookup nodeMap" and "wfLookup linkMap"
    and "node_name ` set (stats_nodes latestStats) \<subseteq> dom nodeMap"
    and "(\<lambda>l. getLinkKey (link_source l) (link_target l)) ` set (stats_links latestStats)
           \<subseteq> dom linkMap"
proof -
  have wf0: "wfLookup Map.empty" by (simp add: wfLookup_def)
  obtain nm1 where n: "nodeSeriesLoop (stats_time latestStats) (stats_nodes latestStats) Map.empty = Some nm1"
    and wfn: "wfLookup nm1"
    and dn: "dom nm1 = dom (Map.empty :: LookupMap) \<union> node_name ` set (stats_nodes latestStats)"
    using nodeSeriesLoop_ok [of Map.empty "stats_time latestStats" "stats_nodes latestStats", OF wf0]
    by blast
  obtain lm1 where l: "linkSeriesLoop (stats_time latestStats) (stats_links latestStats) Map.empty = Some lm1"
    and wfl: "wfLookup lm1"
    and dl: "dom lm1 = dom (Map.empty :: LookupMap) \<union>
        (\<lambda>l. getLinkKey (link_source l) (link_target l)) ` set (stats_links latestStats)"
    using linkSeriesLoop_ok [of Map.empty "stats_time latestStats" "stats_links latestStats", OF wf0]
    by blast
  have step: "statsLoop older (nm1, lm1) = Some (nodeMap, linkMap)"
    using assms by (simp add: n l)
  obtain nm' lm' where t: "statsLoop older (nm1, lm1) = Some (nm', lm')"
    and wf': "wfLookup nm'" "wfLookup lm'"
    using statsLoop_total [of nm1 lm1 older, OF wfn wfl] by blast
  show "wfLookup nodeMap" "wfLookup linkMap" using step t wf' by simp_all
  have mono: "dom nm1 \<subseteq> dom nodeMap" "dom lm1 \<subseteq> dom linkMap"
    using statsLoop_mono [OF step wfn wfl] by simp_all
  show "node_name ` set (stats_nodes latestStats) \<subseteq> dom nodeMap"
    using mono(1) unfolding dn by simp
  show "(\<lambda>l. getLinkKey (link_source l) (link_target l)) ` set (stats_links latestStats)
           \<subseteq> dom linkMap"
    using mono(2) unfolding dl by simp
qed


lemma calcNodeAvg_ok:
  assumes "wfLookup m" and "k \<in> dom m"
  shows "\<exists>a. calcNodeAvg t m k ''rpm'' mins = Some a"
    and "\<exists>a. calcNodeAvg t m k ''fpm'' mins = Some a"
proof -
  obtain plm where p: "m k = Some plm" using assms(2) by blast
  obtain dr df where "plm ''rpm'' = Some dr" "plm ''fpm'' = Some df"
    using assms(1) p unfolding wfLookup_def by blast
  then show "\<exists>a. calcNodeAvg t m k ''rpm'' mins = Some a"
    and "\<exists>a. calcNodeAvg t m k ''fpm'' mins = Some a"
    using p by (simp_all add: calcNodeAvg_def)
qed

lemma calcLinkAvg_ok:
  assumes "wfLookup m" and "getLinkKey s g \<in> dom m"
  shows "\<exists>a. calcLinkAvg t m s g ''rpm'' mins = Some a"
    and "\<exists>a. calcLinkAvg t m s g ''fpm'' mins = Some a"
proof -
  obtain plm where p: "m (getLinkKey s g) = Some plm" using assms(2) by blast
  obtain dr df where "plm ''rpm'' = Some dr" "plm ''fpm'' = Some df"
    using assms(1) p unfolding wfLookup_def by blast
  then show "\<exists>a. calcLinkAvg t m s g ''rpm'' mins = Some a"
    and "\<exists>a. calcLinkAvg t m s g ''fpm'' mins = Some a"
    using p by (simp_all add: calcLinkAvg_def)
qed

lemma nodeResultLoop_ok:
  "wfLookup m \<Longrightarrow> node_name ` set nodes \<subseteq> dom m \<Longrightarrow>
   \<exists>res. nodeResultLoop t m nodes acc = Some (acc @ res) \<and>
     list_all2 (\<lambda>node (n, r, f). n = node_name node \<and>
                  (\<exists>a5 a15. r = [node_rpm node, a5, a15]) \<and>
                  (\<exists>a5 a15. f = [node_fpm node, a5, a15])) nodes res"
proof (induction nodes arbitrary: acc)
  case Nil
  then show ?case by simp
next
  case (Cons node nodes)
  have k: "node_name node \<in> dom m" using Cons.prems(2) by simp
  obtain r5 where r5: "calcNodeAvg t m (node_name node) ''rpm'' 5 = Some r5"
    using calcNodeAvg_ok(1) [OF Cons.prems(1) k, of t 5] by blast
  obtain r15 where r15: "calcNodeAvg t m (node_name node) ''rpm'' 15 = Some r15"
    using calcNodeAvg_ok(1) [OF Cons.prems(1) k, of t 15] by blast
  obtain f5 where f5: "calcNodeAvg t m (node_name node) ''fpm'' 5 = Some f5"
    using calcNodeAvg_ok(2) [OF Cons.prems(1) k, of t 5] by blast
  obtain f15 where f15: "calcNodeAvg t m (node_name node) ''fpm'' 15 = Some f15"
    using calcNodeAvg_ok(2) [OF Cons.prems(1) k, of t 15] by blast
  define e where "e = (node_name node, [node_rpm node, r5, r15], [node_fpm node, f5, f15])"
  have sub: "node_name ` set nodes \<subseteq> dom m" using Cons.prems(2) by simp
  obtain res where l: "nodeResultLoop t m nodes (acc @ [e]) = Some ((acc @ [e]) @ res)"
    and a: "list_all2 (\<lambda>node (n, r, f). n = node_name node \<and>
                  (\<exists>a5 a15. r = [node_rpm node, a5, a15]) \<and>
                  (\<exists>a5 a15. f = [node_fpm node, a5, a15])) nodes res"
    using Cons.IH [OF Cons.prems(1) sub, of "acc @ [e]"] by blast
  have "nodeResultLoop t m (node # nodes) acc = Some (acc @ (e # res))"
    using l by (simp add: r5 r15 f5 f15 e_def)
  moreover have "list_all2 (\<lambda>node (n, r, f). n = node_name node \<and>
                  (\<exists>a5 a15. r = [node_rpm node, a5, a15]) \<and>
                  (\<exists>a5 a15. f = [node_fpm node, a5, a15])) (node # nodes) (e # res)"
    using a by (simp add: e_def)
  ultimately have "nodeResultLoop t m (node # nodes) acc = Some (acc @ (e # res)) \<and>
     list_all2 (\<lambda>node (n, r, f). n = node_name node \<and>
                  (\<exists>a5 a15. r = [node_rpm node, a5, a15]) \<and>
                  (\<exists>a5 a15. f = [node_fpm node, a5, a15])) (node # nodes) (e # res)"
    by (rule conjI)
  then show ?case by (intro exI [of _ "e # res"])
qed


lemma linkResultLoop_ok:
  "wfLookup m \<Longrightarrow>
   (\<lambda>l. getLinkKey (link_source l) (link_target l)) ` set links \<subseteq> dom m \<Longrightarrow>
   \<exists>res. linkResultLoop t m links acc = Some (acc @ res) \<and>
     list_all2 (\<lambda>link (s, g, r, f). s = link_source link \<and> g = link_target link \<and>
                  (\<exists>a5 a15. r = [link_rpm link, a5, a15]) \<and>
                  (\<exists>a5 a15. f = [link_fpm link, a5, a15])) links res"
proof (induction links arbitrary: acc)
  case Nil
  then show ?case by simp
next
  case (Cons link links)
  have k: "getLinkKey (link_source link) (link_target link) \<in> dom m"
    using Cons.prems(2) by simp
  obtain r5 where r5: "calcLinkAvg t m (link_source link) (link_target link) ''rpm'' 5 = Some r5"
    using calcLinkAvg_ok(1) [OF Cons.prems(1) k, of t 5] by blast
  obtain r15 where r15: "calcLinkAvg t m (link_source link) (link_target link) ''rpm'' 15 = Some r15"
    using calcLinkAvg_ok(1) [OF Cons.prems(1) k, of t 15] by blast
  obtain f5 where f5: "calcLinkAvg t m (link_source link) (link_target link) ''fpm'' 5 = Some f5"
    using calcLinkAvg_ok(2) [OF Cons.prems(1) k, of t 5] by blast
  obtain f15 where f15: "calcLinkAvg t m (link_source link) (link_target link) ''fpm'' 15 = Some f15"
    using calcLinkAvg_ok(2) [OF Cons.prems(1) k, of t 15] by blast
  define e where "e = (link_source link, link_target link,
      [link_rpm link, r5, r15], [link_fpm link, f5, f15])"
  have sub: "(\<lambda>l. getLinkKey (link_source l) (link_target l)) ` set links \<subseteq> dom m"
    using Cons.prems(2) by simp
  obtain res where l: "linkResultLoop t m links (acc @ [e]) = Some ((acc @ [e]) @ res)"
    and a: "list_all2 (\<lambda>link (s, g, r, f). s = link_source link \<and> g = link_target link \<and>
                  (\<exists>a5 a15. r = [link_rpm link, a5, a15]) \<and>
                  (\<exists>a5 a15. f = [link_fpm link, a5, a15])) links res"
    using Cons.IH [OF Cons.prems(1) sub, of "acc @ [e]"] by blast
  have "linkResultLoop t m (link # links) acc = Some (acc @ (e # res))"
    using l by (simp add: r5 r15 f5 f15 e_def)
  moreover have "list_all2 (\<lambda>link (s, g, r, f). s = link_source link \<and> g = link_target link \<and>
                  (\<exists>a5 a15. r = [link_rpm link, a5, a15]) \<and>
                  (\<exists>a5 a15. f = [link_fpm link, a5, a15])) (link # links) (e # res)"
    using a by (simp add: e_def)
  ultimately have "linkResultLoop t m (link # links) acc = Some (acc @ (e # res)) \<and>
     list_all2 (\<lambda>link (s, g, r, f). s = link_source link \<and> g = link_target link \<and>
                  (\<exists>a5 a15. r = [link_rpm link, a5, a15]) \<and>
                  (\<exists>a5 a15. f = [link_fpm link, a5, a15])) (link # links) (e # res)"
    by (rule conjI)
  then show ?case by (intro exI [of _ "e # res"])
qed

section \<open>Properties of ingestion\<close>

lemma buildSystemStats_total:
  "\<exists>systemStats systemInfos. buildSystemStats time stats = Some (systemStats, systemInfos)"
proof -
  obtain systems links infos where
    "systemLoop time stats ([], [], []) = Some (systems, links, infos)"
    using systemLoop_total [of time stats "[]" "[]" "[]"] by auto
  then show ?thesis by (simp add: buildSystemStats_def)
qed

lemma saveSystemStats_cases:
  "buildSystemStats time stats = Some (systemStats, systemInfos) \<Longrightarrow>
   saveSystemStats repoSave infoSave time stats =
     (case repoSave systemStats of
        Inl e \<Rightarrow> (Rejected e, [RepoSaveSystemStats systemStats])
      | Inr u \<Rightarrow>
          (case infoSave systemInfos of
             Inl e \<Rightarrow>
               (Rejected e, [RepoSaveSystemStats systemStats, InfoSaveSystemInfo systemInfos])
           | Inr u' \<Rightarrow>
               (Resolved (), [RepoSaveSystemStats systemStats, InfoSaveSystemInfo systemInfos])))"
  by (simp add: saveSystemStats_def)

lemma scenario_build:
  "buildSystemStats 600
     [(''A'', [(''B'', [(''h1'', \<lparr>in_rpm = Some 10, in_fpm = Some 1\<rparr>)])])] =
   Some (\<lparr>stats_time = 600,
           stats_nodes = [\<lparr>node_name = ''A'', node_rpm = 0, node_fpm = 0\<rparr>,
                          \<lparr>node_name = ''B'', node_rpm = 10, node_fpm = 1\<rparr>],
           stats_links = [\<lparr>link_source = ''A'', link_target = ''B'',
                            link_rpm = 10, link_fpm = 1\<rparr>]\<rparr>,
         [\<lparr>attr_time = 600, attr_name = ''B'', attr_node = ''h1'', attr_source = ''A'',
           attr_rpm = Some 10, attr_fpm = Some 1\<rparr>])"
  by (simp add: buildSystemStats_def orZero_def binary64_eval)

text \<open>
  Claim C1. Ingesting the report \<^verbatim>\<open>{A: {B: {h1: {rpm:10, fpm:1}}}}\<close> at time 600 builds
  the snapshot with nodes A (0, 0) and B (10, 1), in that order, and the single link A to B
  (10, 1), and one detail row for host h1. The snapshot is the first value written; when
  that write succeeds the detail rows are written next, and nothing else is written.
\<close>

theorem end_to_end_scenario:
  "let report = [(''A'', [(''B'', [(''h1'', \<lparr>in_rpm = Some 10, in_fpm = Some 1\<rparr>)])])];
       snapshot = \<lparr>stats_time = 600,
           stats_nodes = [\<lparr>node_name = ''A'', node_rpm = 0, node_fpm = 0\<rparr>,
                          \<lparr>node_name = ''B'', node_rpm = 10, node_fpm = 1\<rparr>],
           stats_links = [\<lparr>link_source = ''A'', link_target = ''B'',
                            link_rpm = 10, link_fpm = 1\<rparr>]\<rparr>;
       detail = \<lparr>attr_time = 600, attr_name = ''B'', attr_node = ''h1'', attr_source = ''A'',
           attr_rpm = Some 10, attr_fpm = Some 1\<rparr>
   in buildSystemStats 600 report = Some (snapshot, [detail]) \<and>
      (\<exists>outcome calls. saveSystemStats repoSave infoSave 600 report =
          (outcome, RepoSaveSystemStats snapshot # calls)) \<and>
      (repoSave snapshot = Inr () \<longrightarrow>
         snd (saveSystemStats repoSave infoSave 600 report) =
           [RepoSaveSystemStats snapshot, InfoSaveSystemInfo [detail]]) \<and>
      (repoSave snapshot = Inr () \<and> infoSave [detail] = Inr () \<longrightarrow>
         fst (saveSystemStats repoSave infoSave 600 report) = Resolved ())"
  unfolding Let_def
  by (simp add: saveSystemStats_cases [OF scenario_build] scenario_build split: sum.splits)

theorem end_to_end_scenario_witness:
  "saveSystemStats (\<lambda>s. Inr () :: string + unit) (\<lambda>i. Inr ()) 600
     [(''A'', [(''B'', [(''h1'', \<lparr>in_rpm = Some 10, in_fpm = Some 1\<rparr>)])])] =
   (Resolved (),
    [RepoSaveSystemStats \<lparr>stats_time = 600,
           stats_nodes = [\<lparr>node_name = ''A'', node_rpm = 0, node_fpm = 0\<rparr>,
                          \<lparr>node_name = ''B'', node_rpm = 10, node_fpm = 1\<rparr>],
           stats_links = [\<lparr>link_source = ''A'', link_target = ''B'',
                            link_rpm = 10, link_fpm = 1\<rparr>]\<rparr>,
     InfoSaveSystemInfo [\<lparr>attr_time = 600, attr_name = ''B'', attr_node = ''h1'',
           attr_source = ''A'', attr_rpm = Some 10, attr_fpm = Some 1\<rparr>]])"
  using end_to_end_scenario [of "\<lambda>s. Inr () :: string + unit" "\<lambda>i. Inr ()"]
  unfolding Let_def by (simp add: prod_eq_iff)

text \<open>
  Claim C2, as stated, fails: the node total is accumulated in binary64, so it need not be
  the sum of the link values. With the links A to C of rpm 0.1 and B to C of rpm 0.2 (the
  two rationals below are these binary64 values) node C has rpm 0.30000000000000004, which
  is not the sum of the two link values.
\<close>

theorem node_total_not_exact_sum:
  "let snap =
         \<lparr>stats_time = 600,
          stats_nodes =
            [\<lparr>node_name = ''A'', node_rpm = 0, node_fpm = 0\<rparr>,
             \<lparr>node_name = ''C'', node_rpm = 1351079888211149 / 4503599627370496,
              node_fpm = 0\<rparr>,
             \<lparr>node_name = ''B'', node_rpm = 0, node_fpm = 0\<rparr>],
          stats_links =
            [\<lparr>link_source = ''A'', link_target = ''C'',
              link_rpm = 3602879701896397 / 36028797018963968, link_fpm = 0\<rparr>,
             \<lparr>link_source = ''B'', link_target = ''C'',
              link_rpm = 3602879701896397 / 18014398509481984, link_fpm = 0\<rparr>]\<rparr>
   in map_option fst
        (buildSystemStats 600
           [(''A'', [(''C'', [(''h1'', \<lparr>in_rpm = Some (3602879701896397 / 36028797018963968),
                                        in_fpm = None\<rparr>)])]),
            (''B'', [(''C'', [(''h2'', \<lparr>in_rpm = Some (3602879701896397 / 18014398509481984),
                                        in_fpm = None\<rparr>)])])]) = Some snap \<and>
      node_rpm (stats_nodes snap ! 1) \<noteq>
        sum_list (map link_rpm
          (filter (\<lambda>l. link_target l = node_name (stats_nodes snap ! 1)) (stats_links snap)))"
  by (simp add: Let_def buildSystemStats_def orZero_def binary64_eval)

text \<open>
  Claim C2, amended. In every snapshot that ingestion builds, node names are unique, and
  the rpm (fpm) of each node is the binary64 sum of the rpm (fpm) of the links of that
  snapshot whose target is the node, added up from 0 in the order of the link list; a node
  that is the target of no link has totals 0. Both endpoints of every link are nodes of
  the snapshot. Ingestion builds a snapshot for every report.
\<close>

theorem node_accumulation_law:
  "\<exists>snap infos.
     buildSystemStats time stats = Some (snap, infos) \<and>
     distinct (map node_name (stats_nodes snap)) \<and>
     (\<forall>n \<in> set (stats_nodes snap).
        node_rpm n = inbound link_rpm (node_name n) (stats_links snap) \<and>
        node_fpm n = inbound link_fpm (node_name n) (stats_links snap) \<and>
        ((\<forall>l \<in> set (stats_links snap). link_target l \<noteq> node_name n)
           \<longrightarrow> node_rpm n = 0 \<and> node_fpm n = 0)) \<and>
     (\<forall>l \<in> set (stats_links snap).
        link_source l \<in> node_name ` set (stats_nodes snap) \<and>
        link_target l \<in> node_name ` set (stats_nodes snap))"
proof -
  obtain systems links infos where
    run: "systemLoop time stats ([], [], []) = Some (systems, links, infos)"
    using systemLoop_total [of time stats "[]" "[]" "[]"] by auto
  have acc: "accumulated systems links"
    by (rule systemLoop_accumulated [OF run accumulated_empty])
  define snap where "snap = \<lparr>stats_time = time,
       stats_nodes = map (\<lambda>(system, info).
          \<lparr>node_name = system, node_rpm = sys_rpm info, node_fpm = sys_fpm info\<rparr>) systems,
       stats_links = links\<rparr>"
  have b: "buildSystemStats time stats = Some (snap, infos)"
    by (simp add: buildSystemStats_def run snap_def)
  have names: "map node_name (stats_nodes snap) = map fst systems"
    by (simp add: snap_def case_prod_unfold)
  have d: "distinct (map node_name (stats_nodes snap))"
    using acc by (simp add: names accumulated_def)
  have law: "node_rpm n = inbound link_rpm (node_name n) (stats_links snap) \<and>
        node_fpm n = inbound link_fpm (node_name n) (stats_links snap)"
    if "n \<in> set (stats_nodes snap)" for n
  proof -
    from that obtain k v where kv: "(k, v) \<in> set systems"
      and n: "n = \<lparr>node_name = k, node_rpm = sys_rpm v, node_fpm = sys_fpm v\<rparr>"
      by (auto simp: snap_def)
    have "map_of systems k = Some v"
      using acc kv by (simp add: accumulated_def)
    then have "total_of sys_rpm systems k = sys_rpm v" "total_of sys_fpm systems k = sys_fpm v"
      by (simp_all add: total_of_def)
    then show ?thesis using acc by (simp add: n accumulated_def snap_def)
  qed
  have zero: "node_rpm n = 0 \<and> node_fpm n = 0"
    if "n \<in> set (stats_nodes snap)" "\<forall>l \<in> set (stats_links snap). link_target l \<noteq> node_name n" for n
  proof -
    have "filter (\<lambda>l. link_target l = node_name n) (stats_links snap) = []"
      using that(2) by (simp add: filter_empty_conv)
    then show ?thesis using law [OF that(1)] by (simp add: inbound_def)
  qed
  have known: "endpoints_known systems links"
    by (rule systemLoop_endpoints [OF run]) (simp add: endpoints_known_def)
  have ends: "link_source l \<in> node_name ` set (stats_nodes snap) \<and>
        link_target l \<in> node_name ` set (stats_nodes snap)"
    if "l \<in> set (stats_links snap)" for l
  proof -
    have "map_of systems (link_source l) \<noteq> None" "map_of systems (link_target l) \<noteq> None"
      using known that by (simp_all add: endpoints_known_def snap_def)
    then have "link_source l \<in> set (map fst systems)" "link_target l \<in> set (map fst systems)"
      by (simp_all add: map_of_eq_None_iff)
    then show ?thesis unfolding names [symmetric] by simp
  qed
  have all: "\<forall>n \<in> set (stats_nodes snap).
        node_rpm n = inbound link_rpm (node_name n) (stats_links snap) \<and>
        node_fpm n = inbound link_fpm (node_name n) (stats_links snap) \<and>
        ((\<forall>l \<in> set (stats_links snap). link_target l \<noteq> node_name n)
           \<longrightarrow> node_rpm n = 0 \<and> node_fpm n = 0)"
    using law zero by blast
  have all_ends: "\<forall>l \<in> set (stats_links snap).
        link_source l \<in> node_name ` set (stats_nodes snap) \<and>
        link_target l \<in> node_name ` set (stats_nodes snap)"
    using ends by blast
  show ?thesis
    by (rule exI [of _ snap], rule exI [of _ infos]) (intro conjI b d all all_ends)
qed

theorem node_accumulation_law_witness:
  "\<exists>snap infos.
     buildSystemStats 600
       [(''A'', [(''C'', [(''h1'', \<lparr>in_rpm = Some 10, in_fpm = Some 1\<rparr>)])]),
        (''B'', [(''C'', [(''h2'', \<lparr>in_rpm = Some 5, in_fpm = Some 2\<rparr>)]),
                 (''A'', [(''h3'', \<lparr>in_rpm = Some 7, in_fpm = None\<rparr>)])])] =
       Some (snap, infos) \<and>
     stats_nodes snap =
       [\<lparr>node_name = ''A'', node_rpm = 7, node_fpm = 0\<rparr>,
        \<lparr>node_name = ''C'', node_rpm = 15, node_fpm = 3\<rparr>,
        \<lparr>node_name = ''B'', node_rpm = 0, node_fpm = 0\<rparr>] \<and>
     inbound link_rpm ''C'' (stats_links snap) = 15 \<and>
     inbound link_fpm ''C'' (stats_links snap) = 3 \<and>
     inbound link_rpm ''B'' (stats_links snap) = 0"
proof -
  define report :: SystemStatsInput where "report =
       [(''A'', [(''C'', [(''h1'', \<lparr>in_rpm = Some 10, in_fpm = Some 1\<rparr>)])]),
        (''B'', [(''C'', [(''h2'', \<lparr>in_rpm = Some 5, in_fpm = Some 2\<rparr>)]),
                 (''A'', [(''h3'', \<lparr>in_rpm = Some 7, in_fpm = None\<rparr>)])])]"
  obtain snap infos where b: "buildSystemStats 600 report = Some (snap, infos)"
    and law: "\<forall>n \<in> set (stats_nodes snap).
        node_rpm n = inbound link_rpm (node_name n) (stats_links snap) \<and>
        node_fpm n = inbound link_fpm (node_name n) (stats_links snap) \<and>
        ((\<forall>l \<in> set (stats_links snap). link_target l \<noteq> node_name n)
           \<longrightarrow> node_rpm n = 0 \<and> node_fpm n = 0)"
    using node_accumulation_law [of 600 report] by (elim exE conjE) (rule that)
  have "map_option (stats_nodes \<circ> fst) (buildSystemStats 600 report) =
       Some [\<lparr>node_name = ''A'', node_rpm = 7, node_fpm = 0\<rparr>,
        \<lparr>node_name = ''C'', node_rpm = 15, node_fpm = 3\<rparr>,
        \<lparr>node_name = ''B'', node_rpm = 0, node_fpm = 0\<rparr>]"
    by (simp add: report_def buildSystemStats_def orZero_def binary64_eval)
  then have n: "stats_nodes snap =
       [\<lparr>node_name = ''A'', node_rpm = 7, node_fpm = 0\<rparr>,
        \<lparr>node_name = ''C'', node_rpm = 15, node_fpm = 3\<rparr>,
        \<lparr>node_name = ''B'', node_rpm = 0, node_fpm = 0\<rparr>]"
    by (simp add: b)
  have c: "inbound link_rpm ''C'' (stats_links snap) = 15"
    "inbound link_fpm ''C'' (stats_links snap) = 3"
    "inbound link_rpm ''B'' (stats_links snap) = 0"
    using law by (simp_all add: n)
  show ?thesis
    unfolding report_def [symmetric]
    by (rule exI [of _ snap], rule exI [of _ infos]) (intro conjI b n c)
qed

text \<open>
  Claim C3, at a report whose leaf lacks \<^verbatim>\<open>fpm\<close>: ingestion does not fail and
  the accumulations take the missing field as 0 (node B and link A to B have fpm 0),
  while the detail row carries the field as it was read, absent, not 0.
\<close>

theorem missing_fpm_detail_record:
  "buildSystemStats 600
     [(''A'', [(''B'', [(''h1'', \<lparr>in_rpm = Some 10, in_fpm = None\<rparr>)])])] =
   Some (\<lparr>stats_time = 600,
           stats_nodes = [\<lparr>node_name = ''A'', node_rpm = 0, node_fpm = 0\<rparr>,
                          \<lparr>node_name = ''B'', node_rpm = 10, node_fpm = 0\<rparr>],
           stats_links = [\<lparr>link_source = ''A'', link_target = ''B'',
                            link_rpm = 10, link_fpm = 0\<rparr>]\<rparr>,
         [\<lparr>attr_time = 600, attr_name = ''B'', attr_node = ''h1'', attr_source = ''A'',
           attr_rpm = Some 10, attr_fpm = None\<rparr>])"
  by (simp add: buildSystemStats_def orZero_def binary64_eval)

text \<open>
  Claim C9. The snapshot is written first. The detail rows are written exactly when the
  snapshot write succeeded. The call succeeds exactly when both writes succeed; a failure
  of either write is the failure of the call, and after a failed second write the calls
  made are the two writes and nothing else: the snapshot write is not undone.
\<close>

theorem write_order:
  "\<exists>systemStats systemInfos.
     buildSystemStats time stats = Some (systemStats, systemInfos) \<and>
     (case saveSystemStats repoSave infoSave time stats of
        (outcome, calls) \<Rightarrow>
          (calls = [RepoSaveSystemStats systemStats] \<or>
           calls = [RepoSaveSystemStats systemStats, InfoSaveSystemInfo systemInfos]) \<and>
          (calls = [RepoSaveSystemStats systemStats, InfoSaveSystemInfo systemInfos]
             \<longleftrightarrow> repoSave systemStats = Inr ()) \<and>
          (outcome = Resolved ()
             \<longleftrightarrow> repoSave systemStats = Inr () \<and> infoSave systemInfos = Inr ()) \<and>
          (\<forall>e. repoSave systemStats = Inl e \<longrightarrow> outcome = Rejected e) \<and>
          (\<forall>e. repoSave systemStats = Inr () \<and> infoSave systemInfos = Inl e \<longrightarrow>
             outcome = Rejected e \<and>
             calls = [RepoSaveSystemStats systemStats, InfoSaveSystemInfo systemInfos]))"
proof -
  obtain systemStats systemInfos where
    b: "buildSystemStats time stats = Some (systemStats, systemInfos)"
    using buildSystemStats_total by blast
  have main: "case saveSystemStats repoSave infoSave time stats of
        (outcome, calls) \<Rightarrow>
          (calls = [RepoSaveSystemStats systemStats] \<or>
           calls = [RepoSaveSystemStats systemStats, InfoSaveSystemInfo systemInfos]) \<and>
          (calls = [RepoSaveSystemStats systemStats, InfoSaveSystemInfo systemInfos]
             \<longleftrightarrow> repoSave systemStats = Inr ()) \<and>
          (outcome = Resolved ()
             \<longleftrightarrow> repoSave systemStats = Inr () \<and> infoSave systemInfos = Inr ()) \<and>
          (\<forall>e. repoSave systemStats = Inl e \<longrightarrow> outcome = Rejected e) \<and>
          (\<forall>e. repoSave systemStats = Inr () \<and> infoSave systemInfos = Inl e \<longrightarrow>
             outcome = Rejected e \<and>
             calls = [RepoSaveSystemStats systemStats, InfoSaveSystemInfo systemInfos])"
    by (simp add: saveSystemStats_cases [OF b] split: sum.splits)
  show ?thesis
    by (rule exI [of _ systemStats], rule exI [of _ systemInfos], rule conjI [OF b main])
qed

theorem write_order_witness:
  "saveSystemStats (\<lambda>s. Inr ()) (\<lambda>i. Inl ''detail store down'') 600
     [(''A'', [(''B'', [(''h1'', \<lparr>in_rpm = Some 10, in_fpm = Some 1\<rparr>)])])] =
   (Rejected ''detail store down'',
    [RepoSaveSystemStats \<lparr>stats_time = 600,
           stats_nodes = [\<lparr>node_name = ''A'', node_rpm = 0, node_fpm = 0\<rparr>,
                          \<lparr>node_name = ''B'', node_rpm = 10, node_fpm = 1\<rparr>],
           stats_links = [\<lparr>link_source = ''A'', link_target = ''B'',
                            link_rpm = 10, link_fpm = 1\<rparr>]\<rparr>,
     InfoSaveSystemInfo [\<lparr>attr_time = 600, attr_name = ''B'', attr_node = ''h1'',
           attr_source = ''A'', attr_rpm = Some 10, attr_fpm = Some 1\<rparr>]])"
  using write_order [of 600 "[(''A'', [(''B'', [(''h1'', \<lparr>in_rpm = Some 10, in_fpm = Some 1\<rparr>)])])]"
      "\<lambda>s. Inr ()" "\<lambda>i. Inl ''detail store down''"]
  by (auto simp: scenario_build split: prod.splits)

text \<open>
  Claim C10. For every time \<open>t\<close> the empty report builds the snapshot with time \<open>t\<close> and no
  nodes or links, and no detail rows. That snapshot is written first, and when its write
  succeeds the empty list of detail rows is written as well.
\<close>

theorem empty_report:
  "buildSystemStats t [] = Some (\<lparr>stats_time = t, stats_nodes = [], stats_links = []\<rparr>, []) \<and>
   (\<exists>outcome calls. saveSystemStats repoSave infoSave t [] =
      (outcome, RepoSaveSystemStats \<lparr>stats_time = t, stats_nodes = [], stats_links = []\<rparr> # calls)) \<and>
   (repoSave \<lparr>stats_time = t, stats_nodes = [], stats_links = []\<rparr> = Inr () \<longrightarrow>
      snd (saveSystemStats repoSave infoSave t []) =
        [RepoSaveSystemStats \<lparr>stats_time = t, stats_nodes = [], stats_links = []\<rparr>,
         InfoSaveSystemInfo []])"
proof -
  have b: "buildSystemStats t [] =
      Some (\<lparr>stats_time = t, stats_nodes = [], stats_links = []\<rparr>, [])"
    by (simp add: buildSystemStats_def)
  show ?thesis
    by (simp add: saveSystemStats_cases [OF b] b split: sum.splits)
qed

theorem empty_report_witness:
  "saveSystemStats (\<lambda>s. Inr () :: string + unit) (\<lambda>i. Inr ()) 600 [] =
     (Resolved (),
      [RepoSaveSystemStats \<lparr>stats_time = 600, stats_nodes = [], stats_links = []\<rparr>,
       InfoSaveSystemInfo []])"
proof -
  have "snd (saveSystemStats (\<lambda>s. Inr () :: string + unit) (\<lambda>i. Inr ()) 600 []) =
        [RepoSaveSystemStats \<lparr>stats_time = 600, stats_nodes = [], stats_links = []\<rparr>,
         InfoSaveSystemInfo []]"
    using empty_report [of 600 "\<lambda>s. Inr () :: string + unit" "\<lambda>i. Inr ()"] by simp
  moreover have "fst (saveSystemStats (\<lambda>s. Inr () :: string + unit) (\<lambda>i. Inr ()) 600 []) = Resolved ()"
    by (simp add: saveSystemStats_def buildSystemStats_def)
  ultimately show ?thesis by (simp add: prod_eq_iff)
qed


section \<open>Properties of the query\<close>

text \<open>
  Claim C4, as stated, fails: the key is the plain concatenation with \<^verbatim>\<open>-\<close>, and an
  identifier may contain \<^verbatim>\<open>-\<close>. The identifiers \<^verbatim>\<open>x\<close> and \<^verbatim>\<open>x-x\<close> differ and have
  the same key in both directions.
\<close>

theorem getLinkKey_collision:
  "\<not> (''x'' \<noteq> ''x-x'' \<longrightarrow> getLinkKey ''x'' ''x-x'' \<noteq> getLinkKey ''x-x'' ''x'')"
  by (simp add: getLinkKey_def)

text \<open>
  Claim C4, amended. For identifiers \<open>a \<noteq> b\<close> neither of which contains the character
  \<^verbatim>\<open>-\<close>, the key of \<open>(a, b)\<close> differs from the key of \<open>(b, a)\<close>.
\<close>

theorem getLinkKey_directional:
  assumes "a \<noteq> b" and "CHR ''-'' \<notin> set a" and "CHR ''-'' \<notin> set b"
  shows "getLinkKey a b \<noteq> getLinkKey b a"
proof
  assume "getLinkKey a b = getLinkKey b a"
  then have "takeWhile (\<lambda>c. c \<noteq> CHR ''-'') (a @ CHR ''-'' # b) =
             takeWhile (\<lambda>c. c \<noteq> CHR ''-'') (b @ CHR ''-'' # a)"
    by (simp add: getLinkKey_def)
  moreover have "takeWhile (\<lambda>c. c \<noteq> CHR ''-'') (a @ CHR ''-'' # b) = a"
    using assms(2) by (subst takeWhile_append2) auto
  moreover have "takeWhile (\<lambda>c. c \<noteq> CHR ''-'') (b @ CHR ''-'' # a) = b"
    using assms(3) by (subst takeWhile_append2) auto
  ultimately show False using assms(1) by simp
qed

theorem getLinkKey_directional_witness:
  "getLinkKey ''A'' ''B'' \<noteq> getLinkKey ''B'' ''A''"
  using getLinkKey_directional [of "''A''" "''B''"] by simp

lemma scanTimes_window:
  "scanTimes (latestTime - m * 60) latestTime =
     map (\<lambda>k. latestTime - m * 60 + 60 * k) [0..m]"
  by (simp add: scanTimes_def)

lemma calcDataAvg_scan:
  "calcDataAvg data begin' end' =
     (let present = List.map_filter data (scanTimes begin' end')
      in if present = [] then 0
         else binary64 (toFixed3 (fdiv (foldl fadd 0 present) (of_nat (length present)))))"
  by (simp add: calcDataAvg_def calcDataAvg_loop_scan Let_def)

text \<open>
  Claim C5, as stated, fails: the quotient is rounded to binary64 before \<^verbatim>\<open>toFixed\<close>
  rounds it to three decimals. The series with 0.1875 at time 0 and 0 at times 60 to 240
  has the mean 0.0375 over the window from 0 to 240, which rounds to 0.038; the code
  divides in binary64, gets a value just below 0.0375, and returns 0.037.
\<close>

theorem rolling_average_not_exact_mean:
  "calcDataAvg [0 \<mapsto> 3 / 16, 60 \<mapsto> 0, 120 \<mapsto> 0, 180 \<mapsto> 0, 240 \<mapsto> 0] (240 - 4 * 60) 240 =
     binary64 (37 / 1000) \<and>
   toFixed3 (sum_list [3 / 16, 0, 0, 0, 0] / of_nat (length [3 / 16, 0, 0, 0, 0 :: rat])) =
     38 / 1000 \<and>
   binary64 (37 / 1000) \<noteq> 38 / 1000 \<and>
   binary64 (37 / 1000) \<noteq> binary64 (38 / 1000)"
  by (simp add: calcDataAvg_def calcDataAvg_loop.simps toFixed3_def binary64_eval)

text \<open>
  Claim C5, amended. Over the window from \<open>latestTime - m * 60\<close> to \<open>latestTime\<close> the
  average is computed from the series values at the timestamps \<open>begin, begin + 60, ..., end\<close>
  that are present in the series: their binary64 sum, added up from 0 in scan order, is
  divided in binary64 by their number; the quotient is rounded to three decimals by
  \<^verbatim>\<open>toFixed\<close> and read back as the nearest binary64 value. The average is 0 when no
  timestamp is present. \<^verbatim>\<open>calcNodeAvg\<close> and \<^verbatim>\<open>calcLinkAvg\<close> compute it on the series
  of the entity and property asked for. The rounding of \<^verbatim>\<open>toFixed\<close> yields a multiple of
  \<open>1 / 1000\<close> at distance at most \<open>1 / 2000\<close> from the quotient. The series
  \<^verbatim>\<open>{0: 1, 60: 2}\<close> over one minute averages to \<open>1.5\<close>.
\<close>

theorem rolling_average:
  "calcDataAvg data (latestTime - m * 60) latestTime =
     (let present =
            List.map_filter data (map (\<lambda>k. latestTime - m * 60 + 60 * k) [0..m])
      in if present = [] then 0
         else binary64 (toFixed3 (fdiv (foldl fadd 0 present) (of_nat (length present))))) \<and>
   (nodeMap node = Some plm \<and> plm property = Some data \<longrightarrow>
      calcNodeAvg latestTime nodeMap node property m =
        Some (calcDataAvg data (latestTime - m * 60) latestTime)) \<and>
   (linkMap (getLinkKey source target) = Some plm \<and> plm property = Some data \<longrightarrow>
      calcLinkAvg latestTime linkMap source target property m =
        Some (calcDataAvg data (latestTime - m * 60) latestTime)) \<and>
   (\<exists>n::int. toFixed3 x = of_int n / 1000) \<and>
   \<bar>toFixed3 x - x\<bar> \<le> 1 / 2000 \<and>
   calcDataAvg [0 \<mapsto> 1, 60 \<mapsto> 2] (60 - 1 * 60) 60 = 3 / 2"
proof -
  have ex: "calcDataAvg [0 \<mapsto> 1, 60 \<mapsto> 2] (60 - 1 * 60) 60 = 3 / 2"
    by (simp add: calcDataAvg_def calcDataAvg_loop.simps toFixed3_def binary64_eval)
  show ?thesis
    using toFixed3_grid [of x] toFixed3_near [of x] ex
    by (simp add: calcDataAvg_scan [of data] scanTimes_window calcNodeAvg_def
        calcLinkAvg_def Let_def)
qed

theorem rolling_average_witness:
  "calcNodeAvg 60
     [''B'' \<mapsto> [''rpm'' \<mapsto> [0 \<mapsto> 10, 60 \<mapsto> 20], ''fpm'' \<mapsto> [0 \<mapsto> 1, 60 \<mapsto> 1]]]
     ''B'' ''rpm'' 5 = Some 15"
proof -
  have "calcNodeAvg 60
     [''B'' \<mapsto> [''rpm'' \<mapsto> [0 \<mapsto> 10, 60 \<mapsto> 20], ''fpm'' \<mapsto> [0 \<mapsto> 1, 60 \<mapsto> 1]]]
     ''B'' ''rpm'' 5 = Some (calcDataAvg [0 \<mapsto> 10, 60 \<mapsto> 20] (60 - 5 * 60) 60)"
    using rolling_average [of "[0 \<mapsto> 10, 60 \<mapsto> 20]" 60 5
        "[''B'' \<mapsto> [''rpm'' \<mapsto> [0 \<mapsto> 10, 60 \<mapsto> 20], ''fpm'' \<mapsto> [0 \<mapsto> 1, 60 \<mapsto> 1]]]"
        "''B''" "[''rpm'' \<mapsto> [0 \<mapsto> 10, 60 \<mapsto> 20], ''fpm'' \<mapsto> [0 \<mapsto> 1, 60 \<mapsto> 1]]"
        "''rpm''"]
    by simp
  moreover have "calcDataAvg [0 \<mapsto> 10, 60 \<mapsto> 20] (60 - 5 * 60) 60 = 15"
    by (simp add: calcDataAvg_def calcDataAvg_loop.simps toFixed3_def binary64_eval)
  ultimately show ?thesis by simp
qed

text \<open>
  Claim C6. When the series has no sample at any timestamp the loop scans between
  \<open>begin\<close> and \<open>end\<close>, \<^verbatim>\<open>calcDataAvg\<close> returns exactly 0.
\<close>

theorem zero_sample_average:
  "(\<forall>t \<in> set (scanTimes begin' end'). data t = None) \<Longrightarrow> calcDataAvg data begin' end' = 0"
proof -
  assume "\<forall>t \<in> set (scanTimes begin' end'). data t = None"
  then have "List.map_filter data (scanTimes begin' end') = []"
    by (simp add: List.map_filter_def filter_empty_conv)
  then show ?thesis by (simp add: calcDataAvg_scan)
qed

theorem zero_sample_average_witness:
  "scanTimes 0 120 = [0, 60, 120] \<and> calcDataAvg [30 \<mapsto> 5, 200 \<mapsto> 7] 0 120 = 0"
proof -
  have s: "scanTimes 0 120 = [0, 60, 120]"
    by (simp add: scanTimes_def upto.simps)
  have h: "\<forall>t \<in> set (scanTimes 0 120). [30 \<mapsto> 5, 200 \<mapsto> (7 :: rat)] t = None"
    by (simp add: s)
  show ?thesis by (rule conjI [OF s zero_sample_average [OF h]])
qed

text \<open>
  Claim C7. When the range read returns at least one snapshot, the query resolves with the
  latest time, and its nodes and links are those of the first fetched snapshot
  (\<^verbatim>\<open>stats[0]\<close>), one entry each, in the same order; the first element of every rpm and
  fpm triple is the value stored in that snapshot, unchanged.
\<close>

theorem instant_horizon_identity:
  assumes "repoGetSystemStats (time - 14 * 60) time = Inr (latestStats # older)"
  shows "\<exists>ns ls.
     getSystemStats (Inr (Some time)) repoGetSystemStats =
       Resolved \<lparr>dto_time = time, dto_nodes = ns, dto_links = ls\<rparr> \<and>
     list_all2 (\<lambda>node (n, r, f). n = node_name node \<and>
                  (\<exists>a5 a15. r = [node_rpm node, a5, a15]) \<and>
                  (\<exists>a5 a15. f = [node_fpm node, a5, a15]))
       (stats_nodes latestStats) ns \<and>
     list_all2 (\<lambda>link (s, g, r, f). s = link_source link \<and> g = link_target link \<and>
                  (\<exists>a5 a15. r = [link_rpm link, a5, a15]) \<and>
                  (\<exists>a5 a15. f = [link_fpm link, a5, a15]))
       (stats_links latestStats) ls"
proof -
  have fetched: "repoGetSystemStats (time - 840) time = Inr (latestStats # older)"
    using assms by simp
  have wf0: "wfLookup Map.empty" by (simp add: wfLookup_def)
  obtain nodeMap linkMap where
    run: "statsLoop (latestStats # older) (Map.empty, Map.empty) = Some (nodeMap, linkMap)"
    using statsLoop_total [of Map.empty Map.empty "latestStats # older", OF wf0 wf0] by blast
  note inv = statsLoop_latest [OF run]
  obtain ns where n: "nodeResultLoop time nodeMap (stats_nodes latestStats) [] = Some ([] @ ns)"
    and nl: "list_all2 (\<lambda>node (n, r, f). n = node_name node \<and>
                  (\<exists>a5 a15. r = [node_rpm node, a5, a15]) \<and>
                  (\<exists>a5 a15. f = [node_fpm node, a5, a15]))
       (stats_nodes latestStats) ns"
    using nodeResultLoop_ok [OF inv(1) inv(3), of time "[]"] by blast
  obtain ls where l: "linkResultLoop time linkMap (stats_links latestStats) [] = Some ([] @ ls)"
    and ll: "list_all2 (\<lambda>link (s, g, r, f). s = link_source link \<and> g = link_target link \<and>
                  (\<exists>a5 a15. r = [link_rpm link, a5, a15]) \<and>
                  (\<exists>a5 a15. f = [link_fpm link, a5, a15]))
       (stats_links latestStats) ls"
    using linkResultLoop_ok [OF inv(2) inv(4), of time "[]"] by blast
  have c: "composeResult time (latestStats # older) =
       (Resolved \<lparr>dto_time = time, dto_nodes = ns, dto_links = ls\<rparr> ::
          ('a, SystemStatsDto) outcome)"
    unfolding composeResult_def run using n l by simp
  have "getSystemStats (Inr (Some time)) repoGetSystemStats =
       Resolved \<lparr>dto_time = time, dto_nodes = ns, dto_links = ls\<rparr>"
    by (simp add: getSystemStats_def fetched c)
  then show ?thesis using nl ll by (intro exI [of _ ns] exI [of _ ls] conjI)
qed

theorem instant_horizon_identity_witness:
  "\<exists>ns ls.
     getSystemStats (Inr (Some 60))
       (\<lambda>begin' end'. Inr
          [\<lparr>stats_time = 60,
            stats_nodes = [\<lparr>node_name = ''B'', node_rpm = 20, node_fpm = 1\<rparr>],
            stats_links = [\<lparr>link_source = ''A'', link_target = ''B'',
                             link_rpm = 20, link_fpm = 1\<rparr>]\<rparr>,
           \<lparr>stats_time = 0,
            stats_nodes = [\<lparr>node_name = ''B'', node_rpm = 10, node_fpm = 2\<rparr>],
            stats_links = []\<rparr>] :: string + SystemStats list) =
       Resolved \<lparr>dto_time = 60, dto_nodes = ns, dto_links = ls\<rparr> \<and>
     list_all2 (\<lambda>node (n, r, f). n = node_name node \<and>
                  (\<exists>a5 a15. r = [node_rpm node, a5, a15]) \<and>
                  (\<exists>a5 a15. f = [node_fpm node, a5, a15]))
       [\<lparr>node_name = ''B'', node_rpm = 20, node_fpm = 1\<rparr>] ns \<and>
     list_all2 (\<lambda>link (s, g, r, f). s = link_source link \<and> g = link_target link \<and>
                  (\<exists>a5 a15. r = [link_rpm link, a5, a15]) \<and>
                  (\<exists>a5 a15. f = [link_fpm link, a5, a15]))
       [\<lparr>link_source = ''A'', link_target = ''B'', link_rpm = 20, link_fpm = 1\<rparr>] ls"
  using instant_horizon_identity
    [of "\<lambda>begin' end'. Inr
          [\<lparr>stats_time = 60,
            stats_nodes = [\<lparr>node_name = ''B'', node_rpm = 20, node_fpm = 1\<rparr>],
            stats_links = [\<lparr>link_source = ''A'', link_target = ''B'',
                             link_rpm = 20, link_fpm = 1\<rparr>]\<rparr>,
           \<lparr>stats_time = 0,
            stats_nodes = [\<lparr>node_name = ''B'', node_rpm = 10, node_fpm = 2\<rparr>],
            stats_links = []\<rparr>] :: string + SystemStats list"
        60
        "\<lparr>stats_time = 60,
            stats_nodes = [\<lparr>node_name = ''B'', node_rpm = 20, node_fpm = 1\<rparr>],
            stats_links = [\<lparr>link_source = ''A'', link_target = ''B'',
                             link_rpm = 20, link_fpm = 1\<rparr>]\<rparr>"
        "[\<lparr>stats_time = 0,
            stats_nodes = [\<lparr>node_name = ''B'', node_rpm = 10, node_fpm = 2\<rparr>],
            stats_links = []\<rparr>]"]
  by simp

text \<open>
  The two-sample scenario in full: the same link with rpm 10 at time 0 and rpm 20 at time
  60, queried at time 60.
\<close>

lemma multi_sample_scenario:
  "getSystemStats (Inr (Some 60))
     (\<lambda>begin' end'. Inr
        [\<lparr>stats_time = 60,
          stats_nodes = [\<lparr>node_name = ''A'', node_rpm = 0, node_fpm = 0\<rparr>,
                         \<lparr>node_name = ''B'', node_rpm = 20, node_fpm = 1\<rparr>],
          stats_links = [\<lparr>link_source = ''A'', link_target = ''B'',
                           link_rpm = 20, link_fpm = 1\<rparr>]\<rparr>,
         \<lparr>stats_time = 0,
          stats_nodes = [\<lparr>node_name = ''A'', node_rpm = 0, node_fpm = 0\<rparr>,
                         \<lparr>node_name = ''B'', node_rpm = 10, node_fpm = 2\<rparr>],
          stats_links = [\<lparr>link_source = ''A'', link_target = ''B'',
                           link_rpm = 10, link_fpm = 2\<rparr>]\<rparr>] :: string + SystemStats list) =
   Resolved \<lparr>dto_time = 60,
     dto_nodes = [(''A'', [0, 0, 0], [0, 0, 0]), (''B'', [20, 15, 15], [1, 3 / 2, 3 / 2])],
     dto_links = [(''A'', ''B'', [20, 15, 15], [1, 3 / 2, 3 / 2])]\<rparr>"
  by (simp add: getSystemStats_def composeResult_def recordSample_def setSample_def
      calcNodeAvg_def calcLinkAvg_def getLinkKey_def calcDataAvg_def calcDataAvg_loop.simps
      toFixed3_def binary64_eval)

text \<open>
  Claim C8. When the repository has no latest time, and when it has one but the range
  read returns no snapshot, the query resolves with time 0 and no nodes or links.
\<close>

theorem empty_store_query:
  "getSystemStats (Inr None) repoGetSystemStats =
     Resolved \<lparr>dto_time = 0, dto_nodes = [], dto_links = []\<rparr> \<and>
   (repoGetSystemStats (time - 14 * 60) time = Inr [] \<longrightarrow>
      getSystemStats (Inr (Some time)) repoGetSystemStats =
        Resolved \<lparr>dto_time = 0, dto_nodes = [], dto_links = []\<rparr>)"
  by (simp add: getSystemStats_def)

theorem empty_store_query_witness:
  "getSystemStats (Inr (Some 600)) (\<lambda>b e. Inr [] :: string + SystemStats list) =
     Resolved \<lparr>dto_time = 0, dto_nodes = [], dto_links = []\<rparr>"
  using empty_store_query [of "\<lambda>b e. Inr [] :: string + SystemStats list" 600] by simp

end
